theory Spec2Isabelle
  imports Main
begin

section \<open>Python values and exceptions\<close>

text \<open>
  The exceptions that \<^verbatim>\<open>catan/game.py\<close> and its collaborators raise.  A raise is the
  \<open>Inl\<close> branch of a result: the caller gets the exception and nothing else.
\<close>

datatype error =
    Exception string
  | IndexError
  | KeyError
  | AttributeError
  | NothingToUndo
  | NothingToRedo
  | IllegalAction
  | IllegalPlacement

definition and_then :: "error + 'a \<Rightarrow> ('a \<Rightarrow> error + 'b) \<Rightarrow> error + 'b" where
  "and_then m f = (case m of Inl e \<Rightarrow> Inl e | Inr x \<Rightarrow> f x)"

text \<open>
  Strings are ASCII strings.  \<^verbatim>\<open>str.lower()\<close> maps \<^verbatim>\<open>A\<close>..\<^verbatim>\<open>Z\<close> (codes 65..90) to
  \<^verbatim>\<open>a\<close>..\<^verbatim>\<open>z\<close> and leaves every other character alone; \<^verbatim>\<open>s.replace(' ', '')\<close>
  deletes every space.
\<close>

definition is_upper :: "char \<Rightarrow> bool" where
  "is_upper c = (65 \<le> (of_char c :: nat) \<and> (of_char c :: nat) \<le> 90)"

definition lower_char :: "char \<Rightarrow> char" where
  "lower_char c = (if is_upper c then char_of (of_char c + 32 :: nat) else c)"

definition str_lower :: "string \<Rightarrow> string" where
  "str_lower s = map lower_char s"

definition remove_spaces :: "string \<Rightarrow> string" where
  "remove_spaces s = filter (\<lambda>c. c \<noteq> CHR '' '') s"

section \<open>class Player\<close>

record player =
  seat :: int
  name :: string
  color :: string

text \<open>\<^verbatim>\<open>Player.__init__(self, seat, name, color)\<close>, lines 600-607.\<close>

definition Player_init :: "int \<Rightarrow> string \<Rightarrow> string \<Rightarrow> error + player" where
  "Player_init s n c =
     (if \<not> (1 \<le> s \<and> s \<le> 4) then Inl (Exception ''Seat must be on [1,4]'')
      else Inr \<lparr>seat = s,
                name = remove_spaces (str_lower n),
                color = remove_spaces (str_lower c)\<rparr>)"

text \<open>
  The right operand of \<^verbatim>\<open>==\<close> is any Python object: \<^verbatim>\<open>None\<close>, a Player, or an object of
  another class.
\<close>

datatype pyobj = PyNone | PyPlayer player | PyOther

text \<open>\<^verbatim>\<open>Player.__eq__\<close>, lines 609-616.\<close>

definition Player_eq :: "player \<Rightarrow> pyobj \<Rightarrow> bool" where
  "Player_eq self other =
     (case other of
        PyNone \<Rightarrow> False
      | PyOther \<Rightarrow> False
      | PyPlayer p \<Rightarrow> color self = color p \<and> name self = name p \<and> seat self = seat p)"

text \<open>\<^verbatim>\<open>Player.__repr__\<close>, lines 618-619: \<^verbatim>\<open>'{} ({})'.format(self.color, self.name)\<close>.\<close>

definition Player_repr :: "player \<Rightarrow> string" where
  "Player_repr self = color self @ '' ('' @ name self @ '')''"

text \<open>\<^verbatim>\<open>Player.__hash__\<close>, lines 621-622: the sum of the UTF-8 bytes of \<^verbatim>\<open>str(self)\<close>.\<close>

definition Player_hash :: "player \<Rightarrow> int" where
  "Player_hash self = sum_list (map (\<lambda>c. of_char c) (Player_repr self))"

section \<open>Collaborators of class Game\<close>

text \<open>
  Objects live in a store and are named by their address.  Observers are objects outside
  the program (user interface, logger); only their identity matters here.
\<close>

type_synonym addr = nat
type_synonym observer = nat

text \<open>\<^verbatim>\<open>catan.pieces.PieceType\<close> and \<^verbatim>\<open>catan.pieces.Piece(type, owner)\<close>; the robber has no owner.\<close>

datatype piece_type = Settlement | City | Road | Robber

record piece =
  ptype :: piece_type
  owner :: "player option"

text \<open>\<^verbatim>\<open>catan.board.Terrain\<close>, the keys of \<^verbatim>\<open>vocab\<close> in \<^verbatim>\<open>evaluate_final\<close>.\<close>

datatype terrain = Desert | Wheat | Ore | Sheep | Brick | Wood

record tile =
  tile_id :: int
  terrain :: terrain
  number :: "int option"

text \<open>
  Modelled from the spec: the Board class (\<^verbatim>\<open>catan/board.py\<close>) is missing.  The spec
  gives it an ordered collection of tiles, ports, a mapping from (coordinate kind,
  coordinate) to the piece there, and a lock flag; \<^verbatim>\<open>game.py\<close> also reads \<^verbatim>\<open>board.opts\<close> and
  \<^verbatim>\<open>board.player_to_pieces\<close>.  The mappings are association lists in insertion order, as
  Python dictionaries iterate.
\<close>

record board =
  tiles :: "tile list"
  ports :: "(int \<times> string \<times> string) list"
  pieces :: "((int \<times> int) \<times> piece) list"
  locked :: bool
  opts :: "(string \<times> string) list"
  player_to_pieces :: "(player \<times> (int \<times> piece_type) list) list"

text \<open>
  Modelled from the spec: \<^verbatim>\<open>Board.lock()\<close> and \<^verbatim>\<open>Board.unlock()\<close> are missing; the spec says
  they toggle the lock flag and are idempotent.
\<close>

definition Board_lock :: "board \<Rightarrow> board" where
  "Board_lock b = b\<lparr>locked := True\<rparr>"

definition Board_unlock :: "board \<Rightarrow> board" where
  "Board_unlock b = b\<lparr>locked := False\<rparr>"

text \<open>
  Modelled from the spec: the game-state classes (\<^verbatim>\<open>catan/states.py\<close>) are missing.  The
  spec lists the closed set of variants, each holding a back-reference to the owning Game and
  its state-local parameter (the piece type being placed).
\<close>

datatype state_kind =
    NotInGame
  | PreGamePlacingPiece piece_type
  | BeginTurn
  | DuringTurnAfterRoll
  | MoveRobber
  | MoveRobberUsingKnight
  | PlacingPiece piece_type

record state_obj =
  kind :: state_kind
  sgame :: addr

text \<open>
  Modelled from the spec: \<^verbatim>\<open>is_in_game()\<close> of the missing state classes; every variant
  except NotInGame is an in-game state.
\<close>

definition is_in_game :: "state_kind \<Rightarrow> bool" where
  "is_in_game k = (k \<noteq> NotInGame)"

text \<open>
  Modelled from the spec: the dev-card state is one of not-played and played.  Its
  back-reference to the Game is read by no method of \<^verbatim>\<open>game.py\<close> and is left out.
\<close>

datatype dev_card_kind = DevCardNotPlayedState | DevCardPlayedState

text \<open>
  The log sink (\<^verbatim>\<open>catanlog\<close>, an external library) records the calls it receives;
  \<^verbatim>\<open>NoopCatanLog\<close> drops them.
\<close>

datatype log_entry =
    Log_game_start "player list" "terrain list" "int option list" "(int \<times> string \<times> string) list"
  | Log_wins player
  | Log_roll player int
  | Log_buys_road player string
  | Log_buys_settlement player string
  | Log_ends_turn player

datatype catanlog = CatanLog "log_entry list" | NoopCatanLog

definition log_call :: "log_entry \<Rightarrow> catanlog \<Rightarrow> catanlog" where
  "log_call e l = (case l of CatanLog es \<Rightarrow> CatanLog (es @ [e]) | NoopCatanLog \<Rightarrow> NoopCatanLog)"

section \<open>class Game and the store\<close>

text \<open>
  The attributes of a Game object (\<^verbatim>\<open>Game.__init__\<close>, lines 41-67).  Attributes whose
  object identity matters hold an address: the observer set, the undo manager, the board
  and the current state object.  The others hold immutable values or containers that no
  method of \<^verbatim>\<open>game.py\<close> mutates in place.
\<close>

record game =
  observers :: addr
  undo_manager :: addr
  options :: "(string \<times> string option) list"
  players :: "player list"
  board :: addr
  robber :: piece
  catanlog :: catanlog
  state :: "addr option"
  dev_card_state :: "dev_card_kind option"
  cur_player :: "player option"
  last_roll :: "int option"
  last_player_to_roll :: "player option"
  cur_turn :: int
  robber_tile :: "int option"
  terrain_to_tiles :: "(string \<times> int list) list"
  player_to_resources :: "(player \<times> string list list) list"

text \<open>
  Modelled from the spec: the undo/redo engine (module \<^verbatim>\<open>undoredo\<close>) is missing.  A command
  pairs the snapshot taken before the action with the one taken after; the manager keeps
  an undo history and a redo history, most recent first.
\<close>

record command =
  before :: addr
  after :: addr

record undo_mgr =
  undo_stack :: "command list"
  redo_stack :: "command list"

text \<open>
  What the program does to the outside is kept in a trace: each round of observer
  notifications (who was notified, and the Game they were shown), and the calls of
  \<^verbatim>\<open>Game.end\<close> and of the state's \<^verbatim>\<open>next_player()\<close> and \<^verbatim>\<open>can_end_game()\<close>.
\<close>

datatype event =
    Notified addr "observer set" game
  | EndCalled addr
  | NextPlayerCalled player
  | CanEndGameCalled bool

record world =
  games :: "addr \<Rightarrow> game"
  states :: "addr \<Rightarrow> state_obj"
  boards :: "addr \<Rightarrow> board"
  obs_sets :: "addr \<Rightarrow> observer set"
  undo_mgrs :: "addr \<Rightarrow> undo_mgr"
  next_addr :: addr
  trace :: "event list"

text \<open>
  The code that \<^verbatim>\<open>game.py\<close> calls and that is not part of it is a parameter of the model:
  the methods of the missing state classes that depend on the whole game
  (\<^verbatim>\<open>is_in_pregame\<close>, \<^verbatim>\<open>next_player\<close>, \<^verbatim>\<open>can_end_game\<close>), the missing Board methods
  (\<^verbatim>\<open>place_piece\<close>, \<^verbatim>\<open>get_pieces\<close>, \<^verbatim>\<open>restore\<close>, the constructor), the functions of the
  \<^verbatim>\<open>hexgrid\<close> library, the constant \<^verbatim>\<open>Opt.debug\<close>, and the move of an automated player
  (lines 537-539 and 542-544 of \<^verbatim>\<open>end_turn\<close>: a random choice followed by
  \<^verbatim>\<open>place_settlement\<close> and \<^verbatim>\<open>place_road\<close>, which dispatch to the missing state classes).

  A Game registers itself as an observer of its board (line 69), and \<^verbatim>\<open>Game.notify\<close>
  (lines 152-153) answers every notification of the board with a round of
  \<^verbatim>\<open>notify_observers\<close>.  \<^verbatim>\<open>Board.restore(other)\<close> therefore has two parts: the contents the
  board has afterwards (\<open>Board_restore\<close>), and the number of times it notifies its observers
  while it runs (\<open>Board_restore_notifies\<close>), each of which calls \<^verbatim>\<open>Game.notify\<close> once.
\<close>

record env =
  is_in_pregame :: "world \<Rightarrow> addr \<Rightarrow> bool"
  next_player :: "world \<Rightarrow> addr \<Rightarrow> player"
  can_end_game :: "world \<Rightarrow> addr \<Rightarrow> bool"
  place_piece :: "board \<Rightarrow> piece \<Rightarrow> int \<Rightarrow> error + board"
  get_pieces :: "board \<Rightarrow> piece_type list \<Rightarrow> int \<Rightarrow> piece list"
  Board_restore :: "board \<Rightarrow> board \<Rightarrow> board"
  Board_restore_notifies :: "board \<Rightarrow> board \<Rightarrow> nat"
  Board_new :: board
  Opt_debug :: string
  nodes_touching_tile :: "int \<Rightarrow> int list"
  adjacent_tiles_to_node :: "int \<Rightarrow> int list"
  legal_tile_ids :: "int list"
  tile_id_from_coord :: "int \<Rightarrow> int"
  location :: "int \<Rightarrow> int \<Rightarrow> string"
  agent_move :: "string \<Rightarrow> addr \<Rightarrow> world \<Rightarrow> error + world"

text \<open>\<^verbatim>\<open>hexgrid.EDGE\<close> and \<^verbatim>\<open>hexgrid.NODE\<close>.\<close>

definition EDGE :: int where "EDGE = 0"
definition NODE :: int where "NODE = 1"

definition upd_game :: "addr \<Rightarrow> (game \<Rightarrow> game) \<Rightarrow> world \<Rightarrow> world" where
  "upd_game g f w = w\<lparr>games := (games w)(g := f (games w g))\<rparr>"

definition upd_board :: "addr \<Rightarrow> (board \<Rightarrow> board) \<Rightarrow> world \<Rightarrow> world" where
  "upd_board b f w = w\<lparr>boards := (boards w)(b := f (boards w b))\<rparr>"

text \<open>Reading \<^verbatim>\<open>self.state\<close> for a method call: \<^verbatim>\<open>None\<close> has no methods.\<close>

definition with_state :: "addr \<Rightarrow> world \<Rightarrow> (addr \<Rightarrow> error + 'a) \<Rightarrow> error + 'a" where
  "with_state g w f = (case state (games w g) of None \<Rightarrow> Inl AttributeError | Some s \<Rightarrow> f s)"

text \<open>A state object is built by its constructor, \<^verbatim>\<open>catan.states.GameStateX(self)\<close>.\<close>

definition GameState_new :: "state_kind \<Rightarrow> addr \<Rightarrow> world \<Rightarrow> addr \<times> world" where
  "GameState_new k g w =
     (next_addr w,
      w\<lparr>states := (states w)(next_addr w := \<lparr>kind = k, sgame = g\<rparr>),
        next_addr := Suc (next_addr w)\<rparr>)"

text \<open>\<^verbatim>\<open>Game.notify_observers\<close>, lines 155-159, and \<^verbatim>\<open>Game.notify\<close>, lines 152-153.\<close>

definition notify_observers :: "addr \<Rightarrow> world \<Rightarrow> world" where
  "notify_observers g w =
     w\<lparr>trace := trace w @ [Notified g (obs_sets w (observers (games w g))) (games w g)]\<rparr>"

definition notify :: "addr \<Rightarrow> addr \<Rightarrow> world \<Rightarrow> world" where
  "notify g observable w = notify_observers g w"

text \<open>\<^verbatim>\<open>Game.set_state\<close>, lines 161-179.\<close>

definition set_state :: "addr \<Rightarrow> addr \<Rightarrow> world \<Rightarrow> world" where
  "set_state g game_state w =
     (let w1 = upd_game g (\<lambda>x. x\<lparr>state := Some game_state\<rparr>) w;
          w2 = (if is_in_game (kind (states w1 game_state))
                then upd_board (board (games w1 g)) Board_lock w1
                else upd_board (board (games w1 g)) Board_unlock w1)
      in notify_observers g w2)"

text \<open>\<^verbatim>\<open>Game.set_dev_card_state\<close>, lines 181-183.\<close>

definition set_dev_card_state :: "addr \<Rightarrow> dev_card_kind \<Rightarrow> world \<Rightarrow> world" where
  "set_dev_card_state g dev_state w =
     notify_observers g (upd_game g (\<lambda>x. x\<lparr>dev_card_state := Some dev_state\<rparr>) w)"

text \<open>\<^verbatim>\<open>Game.get_cur_player\<close>, lines 297-302, and \<^verbatim>\<open>Game.set_cur_player\<close>, lines 304-307.\<close>

definition get_cur_player :: "addr \<Rightarrow> world \<Rightarrow> error + player" where
  "get_cur_player g w =
     (case cur_player (games w g) of
        None \<Rightarrow> Player_init 1 ''nobody'' ''nobody''
      | Some p \<Rightarrow> Player_init (seat p) (name p) (color p))"

definition set_cur_player :: "addr \<Rightarrow> player \<Rightarrow> world \<Rightarrow> error + world" where
  "set_cur_player g p w =
     and_then (Player_init (seat p) (name p) (color p))
       (\<lambda>q. Inr (upd_game g (\<lambda>x. x\<lparr>cur_player := Some q\<rparr>) w))"

text \<open>\<^verbatim>\<open>Game.set_players\<close>, lines 309-314.\<close>

definition set_players :: "addr \<Rightarrow> player list \<Rightarrow> world \<Rightarrow> error + world" where
  "set_players g ps w =
     (let w1 = upd_game g (\<lambda>x. x\<lparr>players := ps\<rparr>) w
      in case players (games w1 g) of
           [] \<Rightarrow> Inl IndexError
         | p # _ \<Rightarrow> and_then (set_cur_player g p w1) (\<lambda>w2. Inr (notify_observers g w2)))"

text \<open>\<^verbatim>\<open>Game.reset\<close>, lines 284-295.\<close>

definition reset :: "addr \<Rightarrow> world \<Rightarrow> world" where
  "reset g w =
     (let w1 = upd_game g (\<lambda>x. x\<lparr>players := []\<rparr>) w;
          (s, w2) = GameState_new NotInGame g w1;
          w3 = upd_game g (\<lambda>x. x\<lparr>state := Some s, last_roll := None,
                 last_player_to_roll := None, cur_player := None, cur_turn := 0\<rparr>) w2
      in notify_observers g w3)"

section \<open>Snapshots and the undo/redo engine\<close>

text \<open>
  \<^verbatim>\<open>Game.__deepcopy__\<close>, lines 77-90, reached through \<^verbatim>\<open>Game.copy\<close>, lines 116-121.  The
  new Game object \<open>r\<close> gets, attribute by attribute: for \<^verbatim>\<open>observers\<close> a new set
  \<^verbatim>\<open>set(v)\<close> with the same members; for \<^verbatim>\<open>state\<close> and \<^verbatim>\<open>undo_manager\<close> the very same
  object; for every other attribute a deep copy (a new Board object with the same
  contents; equal values for the attributes held by value).
\<close>

definition Game_deepcopy :: "addr \<Rightarrow> world \<Rightarrow> addr \<times> world" where
  "Game_deepcopy self w =
     (let v = games w self;
          r = next_addr w;
          new_set = Suc r;
          new_board = Suc (Suc r);
          result = \<lparr>observers = new_set,
                    undo_manager = undo_manager v,
                    options = options v,
                    players = players v,
                    board = new_board,
                    robber = robber v,
                    catanlog = catanlog v,
                    state = state v,
                    dev_card_state = dev_card_state v,
                    cur_player = cur_player v,
                    last_roll = last_roll v,
                    last_player_to_roll = last_player_to_roll v,
                    cur_turn = cur_turn v,
                    robber_tile = robber_tile v,
                    terrain_to_tiles = terrain_to_tiles v,
                    player_to_resources = player_to_resources v\<rparr>
      in (r, w\<lparr>games := (games w)(r := result),
               obs_sets := (obs_sets w)(new_set := obs_sets w (observers v)),
               boards := (boards w)(new_board := boards w (board v)),
               next_addr := Suc (Suc (Suc r))\<rparr>))"

definition Game_copy :: "addr \<Rightarrow> world \<Rightarrow> addr \<times> world" where
  "Game_copy self w = Game_deepcopy self w"

text \<open>
  \<^verbatim>\<open>Game.restore\<close>, lines 123-147.  The line that would take over the snapshot's
  \<^verbatim>\<open>undo_manager\<close> is commented out in the source; \<^verbatim>\<open>terrain_to_tiles\<close> and
  \<^verbatim>\<open>player_to_resources\<close> are not restored.  \<^verbatim>\<open>self.board.restore(game.board)\<close> (line 132)
  runs when only \<^verbatim>\<open>observers\<close>, \<^verbatim>\<open>options\<close> and \<^verbatim>\<open>players\<close> have been taken over: every
  notification the board sends meanwhile reaches \<^verbatim>\<open>self.notify\<close>, which notifies the
  observers of the Game as it is at that point.
\<close>

definition restore :: "env \<Rightarrow> addr \<Rightarrow> addr \<Rightarrow> world \<Rightarrow> error + world" where
  "restore E self snap w =
     (let w1 = upd_game self (\<lambda>x. x\<lparr>observers := observers (games w snap),
                                     options := options (games w snap),
                                     players := players (games w snap)\<rparr>) w;
          b = board (games w1 self);
          n = Board_restore_notifies E (boards w1 b) (boards w1 (board (games w1 snap)));
          w2 = (notify self b ^^ n)
                 (upd_board b (\<lambda>x. Board_restore E x (boards w1 (board (games w1 snap)))) w1);
          w3 = upd_game self (\<lambda>x. x\<lparr>robber := robber (games w2 snap),
                                     catanlog := catanlog (games w2 snap),
                                     state := state (games w2 snap)\<rparr>) w2
      in case state (games w3 self) of
           None \<Rightarrow> Inl AttributeError
         | Some s \<Rightarrow>
             (let w4 = w3\<lparr>states := (states w3)(s := (states w3 s)\<lparr>sgame := self\<rparr>)\<rparr>;
                  w5 = upd_game self (\<lambda>x. x\<lparr>dev_card_state := dev_card_state (games w4 snap),
                                             cur_player := cur_player (games w4 snap),
                                             last_roll := last_roll (games w4 snap),
                                             last_player_to_roll := last_player_to_roll (games w4 snap),
                                             cur_turn := cur_turn (games w4 snap),
                                             robber_tile := robber_tile (games w4 snap)\<rparr>) w4
              in Inr (notify_observers self w5)))"

text \<open>
  Modelled from the spec: \<^verbatim>\<open>UndoManager.do\<close> of the missing module \<^verbatim>\<open>undoredo\<close>.  It
  executes the action against the live Game, then pushes a command pairing a snapshot taken
  before execution with one taken after, and clears the redo history.
\<close>

definition UndoManager_do ::
  "addr \<Rightarrow> addr \<Rightarrow> (addr \<Rightarrow> world \<Rightarrow> error + world) \<Rightarrow> world \<Rightarrow> error + world" where
  "UndoManager_do um g action w =
     (let (b, w1) = Game_copy g w
      in and_then (action g w1)
           (\<lambda>w2. let (a, w3) = Game_copy g w2
                  in Inr (w3\<lparr>undo_mgrs := (undo_mgrs w3)
                            (um := \<lparr>undo_stack = \<lparr>before = b, after = a\<rparr> # undo_stack (undo_mgrs w3 um),
                                    redo_stack = []\<rparr>)\<rparr>)))"

text \<open>
  Modelled from the spec: \<^verbatim>\<open>UndoManager.undo\<close> of the missing module.  It fails with
  NothingToUndo if the undo history is empty; otherwise it restores the Game to the
  command's before-snapshot and moves that command to the redo history.
\<close>

definition UndoManager_undo :: "env \<Rightarrow> addr \<Rightarrow> addr \<Rightarrow> world \<Rightarrow> error + world" where
  "UndoManager_undo E um g w =
     (case undo_stack (undo_mgrs w um) of
        [] \<Rightarrow> Inl NothingToUndo
      | c # cs \<Rightarrow>
          and_then (restore E g (before c) w)
            (\<lambda>w1. Inr (w1\<lparr>undo_mgrs := (undo_mgrs w1)
                         (um := \<lparr>undo_stack = cs, redo_stack = c # redo_stack (undo_mgrs w1 um)\<rparr>)\<rparr>)))"

text \<open>
  Modelled from the spec: \<^verbatim>\<open>UndoManager.redo\<close> of the missing module.  It fails with
  NothingToRedo if the redo history is empty; otherwise it restores the Game to the
  command's after-snapshot and moves the command back to the undo history.
\<close>

definition UndoManager_redo :: "env \<Rightarrow> addr \<Rightarrow> addr \<Rightarrow> world \<Rightarrow> error + world" where
  "UndoManager_redo E um g w =
     (case redo_stack (undo_mgrs w um) of
        [] \<Rightarrow> Inl NothingToRedo
      | c # cs \<Rightarrow>
          and_then (restore E g (after c) w)
            (\<lambda>w1. Inr (w1\<lparr>undo_mgrs := (undo_mgrs w1)
                         (um := \<lparr>undo_stack = c # undo_stack (undo_mgrs w1 um), redo_stack = cs\<rparr>)\<rparr>)))"

text \<open>\<^verbatim>\<open>Game.do\<close>, lines 92-98; \<^verbatim>\<open>Game.undo\<close>, lines 100-105; \<^verbatim>\<open>Game.redo\<close>, lines 108-113.\<close>

definition Game_do :: "addr \<Rightarrow> (addr \<Rightarrow> world \<Rightarrow> error + world) \<Rightarrow> world \<Rightarrow> error + world" where
  "Game_do g action w =
     and_then (UndoManager_do (undo_manager (games w g)) g action w)
       (\<lambda>w1. Inr (notify_observers g w1))"

definition undo :: "env \<Rightarrow> addr \<Rightarrow> world \<Rightarrow> error + world" where
  "undo E g w =
     and_then (UndoManager_undo E (undo_manager (games w g)) g w)
       (\<lambda>w1. Inr (notify_observers g w1))"

definition redo :: "env \<Rightarrow> addr \<Rightarrow> world \<Rightarrow> error + world" where
  "redo E g w =
     and_then (UndoManager_redo E (undo_manager (games w g)) g w)
       (\<lambda>w1. Inr (notify_observers g w1))"

text \<open>
  Modelled from the spec: the decorator \<^verbatim>\<open>@undoredo.undoable\<close> of the missing module.  Every
  externally invokable action is wrapped by the snapshot engine: calling the method hands
  its body to \<^verbatim>\<open>Game.do\<close> as a command.
\<close>

definition undoable :: "(addr \<Rightarrow> world \<Rightarrow> error + world) \<Rightarrow> addr \<Rightarrow> world \<Rightarrow> error + world" where
  "undoable body g w = Game_do g body w"

section \<open>Game actions\<close>

definition log_to :: "addr \<Rightarrow> log_entry \<Rightarrow> world \<Rightarrow> world" where
  "log_to g e w = upd_game g (\<lambda>x. x\<lparr>catanlog := log_call e (catanlog x)\<rparr>) w"

definition emit :: "event \<Rightarrow> world \<Rightarrow> world" where
  "emit e w = w\<lparr>trace := trace w @ [e]\<rparr>"

text \<open>\<^verbatim>\<open>Game.evaluate_final\<close>, lines 241-282.\<close>

definition vocab :: "terrain \<Rightarrow> string" where
  "vocab t = (case t of Desert \<Rightarrow> ''Desert'' | Wheat \<Rightarrow> ''Wheat'' | Ore \<Rightarrow> ''Ore''
                | Sheep \<Rightarrow> ''Sheep'' | Brick \<Rightarrow> ''Brick'' | Wood \<Rightarrow> ''Wood'')"

fun group_tile :: "(string \<times> int list) list \<Rightarrow> string \<Rightarrow> int \<Rightarrow> (string \<times> int list) list" where
  "group_tile [] k v = [(k, [v])]"
| "group_tile ((k', vs) # rest) k v =
     (if k' = k then (k', vs @ [v]) # rest else (k', vs) # group_tile rest k v)"

definition terrain_groups :: "tile list \<Rightarrow> (string \<times> int list) list" where
  "terrain_groups ts = foldl (\<lambda>d t. group_tile d (vocab (terrain t)) (tile_id t)) [] ts"

definition tile_id_to_terrain_type :: "env \<Rightarrow> tile list \<Rightarrow> int \<Rightarrow> string list option" where
  "tile_id_to_terrain_type E ts t =
     (if t \<in> set (legal_tile_ids E)
      then Some (map fst (filter (\<lambda>(terr, ids). t \<in> set ids) (terrain_groups ts)))
      else None)"

fun adjacent_terrains :: "(int \<Rightarrow> string list option) \<Rightarrow> int list \<Rightarrow> error + string list list" where
  "adjacent_terrains f [] = Inr []"
| "adjacent_terrains f (a # as) =
     (case f a of
        None \<Rightarrow> Inl KeyError
      | Some x \<Rightarrow> and_then (adjacent_terrains f as) (\<lambda>r. Inr (x # r)))"

fun item_resources ::
  "env \<Rightarrow> (int \<Rightarrow> string list option) \<Rightarrow> (int \<times> piece_type) list \<Rightarrow> error + string list list" where
  "item_resources E f [] = Inr []"
| "item_resources E f (item # items) =
     (if snd item = Settlement
      then and_then (adjacent_terrains f (adjacent_tiles_to_node E (fst item)))
             (\<lambda>r. and_then (item_resources E f items) (\<lambda>rs. Inr (r @ rs)))
      else item_resources E f items)"

fun player_resources ::
  "env \<Rightarrow> (int \<Rightarrow> string list option) \<Rightarrow> (player \<times> (int \<times> piece_type) list) list
     \<Rightarrow> error + (player \<times> string list list) list" where
  "player_resources E f [] = Inr []"
| "player_resources E f ((p, items) # rest) =
     and_then (item_resources E f items)
       (\<lambda>r. and_then (player_resources E f rest) (\<lambda>rs. Inr ((p, r) # rs)))"

definition evaluate_final ::
  "env \<Rightarrow> addr \<Rightarrow> (player \<times> (int \<times> piece_type) list) list \<Rightarrow> world \<Rightarrow> error + world" where
  "evaluate_final E g pcs w =
     and_then
       (player_resources E
          (tile_id_to_terrain_type E (tiles (boards w (board (games w g))))) pcs)
       (\<lambda>r. Inr (upd_game g (\<lambda>x. x\<lparr>player_to_resources := r\<rparr>) w))"

text \<open>\<^verbatim>\<open>Game.end\<close>, lines 233-239.\<close>

definition Game_end :: "env \<Rightarrow> addr \<Rightarrow> world \<Rightarrow> error + world" where
  "Game_end E g w =
     (let w0 = emit (EndCalled g) w
      in and_then (get_cur_player g w0)
           (\<lambda>p. let w1 = log_to g (Log_wins p) w0
                 in and_then
                      (evaluate_final E g (player_to_pieces (boards w1 (board (games w1 g)))) w1)
                      (\<lambda>w2. let (s, w3) = GameState_new NotInGame g w2
                             in Inr (notify_observers g (set_state g s w3)))))"

text \<open>\<^verbatim>\<open>Game.roll\<close>, lines 344-353; the dice value is an integer, on which \<^verbatim>\<open>int(roll)\<close> is the identity.\<close>

definition roll_body :: "addr \<Rightarrow> int \<Rightarrow> world \<Rightarrow> error + world" where
  "roll_body g r w =
     and_then (get_cur_player g w)
       (\<lambda>p. let w1 = log_to g (Log_roll p r) w;
                 w2 = upd_game g (\<lambda>x. x\<lparr>last_roll := Some r\<rparr>) w1
             in and_then (get_cur_player g w2)
                  (\<lambda>q. let w3 = upd_game g (\<lambda>x. x\<lparr>last_player_to_roll := Some q\<rparr>) w2
                        in if r = 7
                           then (let (s, w4) = GameState_new MoveRobber g w3
                                 in Inr (set_state g s w4))
                           else (let (s, w4) = GameState_new DuringTurnAfterRoll g w3
                                 in Inr (set_state g s w4))))"

definition roll :: "addr \<Rightarrow> int \<Rightarrow> world \<Rightarrow> error + world" where
  "roll g r w = undoable (\<lambda>self. roll_body self r) g w"

text \<open>\<^verbatim>\<open>Game.play_knight\<close>, lines 473-477.\<close>

definition play_knight_body :: "addr \<Rightarrow> world \<Rightarrow> error + world" where
  "play_knight_body g w =
     (let w1 = set_dev_card_state g DevCardPlayedState w;
          (s, w2) = GameState_new MoveRobberUsingKnight g w1
      in Inr (set_state g s w2))"

definition play_knight :: "addr \<Rightarrow> world \<Rightarrow> error + world" where
  "play_knight g w = undoable play_knight_body g w"

text \<open>
  \<^verbatim>\<open>Game.stealable_players\<close>, lines 367-384.  The owner of a piece may be \<^verbatim>\<open>None\<close>, so the
  result is a set of optional players; with no robber tile the source returns an empty
  list, which is the empty collection here as well.
\<close>

definition stealable_players :: "env \<Rightarrow> addr \<Rightarrow> world \<Rightarrow> error + player option set" where
  "stealable_players E g w =
     (case robber_tile (games w g) of
        None \<Rightarrow> Inr {}
      | Some t \<Rightarrow>
          (let stealable =
                 foldl (\<lambda>acc node.
                          let pcs = get_pieces E (boards w (board (games w g))) [Settlement, City] node
                          in if pcs \<noteq> [] then insert (owner (hd pcs)) acc else acc)
                   {} (nodes_touching_tile E t)
           in and_then (get_cur_player g w)
                (\<lambda>cur. if Some cur \<in> stealable
                        then Inr (stealable - {Some cur})
                        else Inr stealable)))"

text \<open>\<^verbatim>\<open>'agent1' in name\<close>: the substring test of Python strings.\<close>

fun starts_with :: "string \<Rightarrow> string \<Rightarrow> bool" where
  "starts_with [] ys = True"
| "starts_with (x # xs) [] = False"
| "starts_with (x # xs) (y # ys) = (x = y \<and> starts_with xs ys)"

fun contains :: "string \<Rightarrow> string \<Rightarrow> bool" where
  "contains xs [] = (xs = [])"
| "contains xs (y # ys) = (starts_with xs (y # ys) \<or> contains xs ys)"

text \<open>
  \<^verbatim>\<open>Game.end_turn\<close>, lines 505-544.  \<open>end_turn_core\<close> is lines 512-533, \<open>end_turn_agents\<close> is
  lines 535-544, where the move of an automated player is the parameter \<open>agent_move\<close>.
\<close>

definition end_turn_core :: "env \<Rightarrow> addr \<Rightarrow> world \<Rightarrow> error + world" where
  "end_turn_core E g w =
     with_state g w
       (\<lambda>s0. and_then (get_cur_player g w)
          (\<lambda>p. let w1 = log_to g (Log_ends_turn p) w
                in with_state g w1
                  (\<lambda>s1. let np = next_player E w1 s1;
                             w2 = emit (NextPlayerCalled np) w1
                         in and_then (set_cur_player g np w2)
                              (\<lambda>w3. with_state g w3
                                 (\<lambda>s3. let c = can_end_game E w3 s3;
                                            w4 = emit (CanEndGameCalled c) w3
                                        in and_then (if c then Game_end E g w4 else Inr w4)
                                             (\<lambda>w5. let w6 = upd_game g (\<lambda>x. x\<lparr>cur_turn := cur_turn x + 1\<rparr>) w5;
                                                        w7 = set_dev_card_state g DevCardNotPlayedState w6
                                                    in with_state g w7
                                                         (\<lambda>s7. if is_in_pregame E w7 s7
                                                                then (let (s', w8) = GameState_new (PreGamePlacingPiece Settlement) g w7
                                                                      in Inr (set_state g s' w8))
                                                                else Game_end E g w7)))))))"

definition end_turn_agents :: "env \<Rightarrow> addr \<Rightarrow> world \<Rightarrow> error + world" where
  "end_turn_agents E g w =
     (case cur_player (games w g) of
        None \<Rightarrow> Inl AttributeError
      | Some p \<Rightarrow>
          if contains ''agent1'' (name p)
          then with_state g w (\<lambda>s. if is_in_pregame E w s then agent_move E ''agent1'' g w else Inr w)
          else if contains ''agent2'' (name p)
          then with_state g w (\<lambda>s. if is_in_pregame E w s then agent_move E ''agent2'' g w else Inr w)
          else Inr w)"

definition end_turn_body :: "env \<Rightarrow> addr \<Rightarrow> world \<Rightarrow> error + world" where
  "end_turn_body E g w = and_then (end_turn_core E g w) (end_turn_agents E g)"

definition end_turn :: "env \<Rightarrow> addr \<Rightarrow> world \<Rightarrow> error + world" where
  "end_turn E g w = undoable (end_turn_body E) g w"

text \<open>\<^verbatim>\<open>Game.buy_road\<close>, lines 395-404, and \<^verbatim>\<open>Game.buy_settlement\<close>, lines 407-421.\<close>

definition buy_road :: "env \<Rightarrow> addr \<Rightarrow> int \<Rightarrow> world \<Rightarrow> error + world" where
  "buy_road E g edge w =
     and_then (get_cur_player g w)
       (\<lambda>p. and_then (place_piece E (boards w (board (games w g))) \<lparr>ptype = Road, owner = Some p\<rparr> edge)
          (\<lambda>b. let w1 = upd_board (board (games w g)) (\<lambda>_. b) w
                in and_then (get_cur_player g w1)
                     (\<lambda>q. let w2 = log_to g (Log_buys_road q (location E EDGE edge)) w1
                           in with_state g w2
                                (\<lambda>s. if is_in_pregame E w2 s
                                      then end_turn E g w2
                                      else (let (s', w3) = GameState_new DuringTurnAfterRoll g w2
                                            in Inr (set_state g s' w3))))))"

definition buy_settlement :: "env \<Rightarrow> addr \<Rightarrow> int \<Rightarrow> world \<Rightarrow> error + world" where
  "buy_settlement E g node w =
     and_then (get_cur_player g w)
       (\<lambda>p. and_then (place_piece E (boards w (board (games w g))) \<lparr>ptype = Settlement, owner = Some p\<rparr> node)
          (\<lambda>b. let w1 = upd_board (board (games w g)) (\<lambda>_. b) w
                in and_then (get_cur_player g w1)
                     (\<lambda>q. let w2 = log_to g (Log_buys_settlement q (location E NODE node)) w1
                           in with_state g w2
                                (\<lambda>s. if is_in_pregame E w2 s
                                      then (let (s', w3) = GameState_new (PreGamePlacingPiece Road) g w2
                                            in Inr (set_state g s' w3))
                                      else (let (s', w3) = GameState_new DuringTurnAfterRoll g w2
                                            in Inr (set_state g s' w3))))))"

text \<open>\<^verbatim>\<open>Game.get_debug_players\<close>, lines 584-590.\<close>

definition get_debug_players :: "error + player list" where
  "get_debug_players =
     and_then (Player_init 1 ''abdur'' ''green'')
       (\<lambda>p1. and_then (Player_init 2 ''Qlearn'' ''blue'')
          (\<lambda>p2. and_then (Player_init 3 ''vitor'' ''orange'')
             (\<lambda>p3. and_then (Player_init 4 ''brian'' ''red'')
                (\<lambda>p4. Inr [p1, p2, p3, p4]))))"

text \<open>\<^verbatim>\<open>dict.get(key)\<close> on a dictionary whose values may be \<^verbatim>\<open>None\<close>.\<close>

definition dict_get :: "(string \<times> string option) list \<Rightarrow> string \<Rightarrow> string option" where
  "dict_get d k = (case map_of d k of None \<Rightarrow> None | Some v \<Rightarrow> v)"

text \<open>\<^verbatim>\<open>Game.start\<close>, lines 185-231.\<close>

definition start_body :: "env \<Rightarrow> addr \<Rightarrow> player list \<Rightarrow> world \<Rightarrow> error + world" where
  "start_body E g ps w =
     (let w1 = reset g w
      in and_then
           (if map_of (opts (boards w1 (board (games w1 g)))) ''players'' = Some (Opt_debug E)
            then get_debug_players else Inr ps)
           (\<lambda>ps'. and_then (set_players g ps' w1)
              (\<lambda>w2. let pregame = dict_get (options (games w2 g)) ''pregame'';
                         w3 = (if pregame = None \<or> pregame = Some ''on''
                               then (let (s, w') = GameState_new (PreGamePlacingPiece Settlement) g w2
                                     in set_state g s w')
                               else if pregame = Some ''off''
                               then (let (s, w') = GameState_new BeginTurn g w2
                                     in set_state g s w')
                               else w2);
                         b = boards w3 (board (games w3 g));
                         terrains = map terrain (tiles b);
                         numbers = map number (tiles b);
                         w4 = foldl (\<lambda>v ((_, coord), pc).
                                       if ptype pc = Robber
                                       then upd_game g (\<lambda>x. x\<lparr>robber_tile := Some (tile_id_from_coord E coord)\<rparr>) v
                                       else v)
                                w3 (pieces b);
                         w5 = log_to g (Log_game_start (players (games w4 g)) terrains numbers (ports b)) w4
                     in Inr (notify_observers g w5))))"

definition start :: "env \<Rightarrow> addr \<Rightarrow> player list \<Rightarrow> world \<Rightarrow> error + world" where
  "start E g ps w = undoable (\<lambda>self. start_body E self ps) g w"

text \<open>
  \<^verbatim>\<open>Game.__init__\<close>, lines 30-72.  The arguments are the players (\<^verbatim>\<open>None\<close> is the empty list),
  the board (\<^verbatim>\<open>None\<close> builds a new Board) and the options \<^verbatim>\<open>logging\<close> and \<^verbatim>\<open>pregame\<close>.  The
  new Game registers itself with the board (line 69); that registration is what makes the
  notifications of \<^verbatim>\<open>Board.restore\<close> reach \<^verbatim>\<open>Game.notify\<close>, see \<open>restore\<close>.
\<close>

definition Game_init ::
  "env \<Rightarrow> player list \<Rightarrow> addr option \<Rightarrow> string \<Rightarrow> string option \<Rightarrow> world \<Rightarrow> addr \<times> world" where
  "Game_init E ps b logging pregame w =
     (let g = next_addr w;
          obs = Suc g;
          um = Suc (Suc g);
          w0 = w\<lparr>obs_sets := (obs_sets w)(obs := {}),
                 undo_mgrs := (undo_mgrs w)(um := \<lparr>undo_stack = [], redo_stack = []\<rparr>),
                 next_addr := Suc (Suc (Suc g))\<rparr>;
          (bd, w1) = (case b of
                        Some a \<Rightarrow> (a, w0)
                      | None \<Rightarrow> (next_addr w0,
                                 w0\<lparr>boards := (boards w0)(next_addr w0 := Board_new E),
                                    next_addr := Suc (next_addr w0)\<rparr>));
          self = \<lparr>observers = obs,
                  undo_manager = um,
                  options = [(''pregame'', pregame)],
                  players = ps,
                  board = bd,
                  robber = \<lparr>ptype = Robber, owner = None\<rparr>,
                  catanlog = (if logging = ''on'' then CatanLog [] else NoopCatanLog),
                  state = None,
                  dev_card_state = None,
                  cur_player = None,
                  last_roll = None,
                  last_player_to_roll = None,
                  cur_turn = 0,
                  robber_tile = None,
                  terrain_to_tiles = [],
                  player_to_resources = []\<rparr>;
          w2 = w1\<lparr>games := (games w1)(g := self)\<rparr>;
          (s, w3) = GameState_new NotInGame g w2;
          w4 = set_state g s w3
      in (g, set_dev_card_state g DevCardNotPlayedState w4))"

section \<open>A concrete instance of the parameters\<close>

text \<open>
  Modelled from the spec: one instance of the missing collaborators, used to run the model
  on explicit inputs.  The pregame states are the PreGamePlacingPiece variants; the next
  player is the next one in seating order, wrapping around; the game never reports that it
  can end; \<^verbatim>\<open>place_piece\<close> records the piece at its coordinate and fails with
  IllegalPlacement when the slot is occupied; \<^verbatim>\<open>get_pieces\<close> returns the pieces at a
  coordinate whose kind is among the requested ones; restoring a board takes over the
  snapshot's contents and notifies the board's observers once, when it is done.  The hex
  grid is a toy grid: tile \<open>t\<close> touches the nodes
  \<open>10 t + 1\<close> .. \<open>10 t + 6\<close>.
\<close>

definition demo_is_in_pregame :: "world \<Rightarrow> addr \<Rightarrow> bool" where
  "demo_is_in_pregame w s = (case kind (states w s) of PreGamePlacingPiece _ \<Rightarrow> True | _ \<Rightarrow> False)"

definition next_after :: "player \<Rightarrow> player list \<Rightarrow> player" where
  "next_after p ps =
     (case dropWhile (\<lambda>q. q \<noteq> p) ps of
        _ # q # _ \<Rightarrow> q
      | _ \<Rightarrow> (case ps of [] \<Rightarrow> p | q # _ \<Rightarrow> q))"

definition demo_next_player :: "world \<Rightarrow> addr \<Rightarrow> player" where
  "demo_next_player w s =
     (case cur_player (games w (sgame (states w s))) of
        None \<Rightarrow> \<lparr>seat = 1, name = ''nobody'', color = ''nobody''\<rparr>
      | Some p \<Rightarrow> next_after p (players (games w (sgame (states w s)))))"

definition demo_place_piece :: "board \<Rightarrow> piece \<Rightarrow> int \<Rightarrow> error + board" where
  "demo_place_piece b pc c =
     (let key = (if ptype pc = Road then EDGE else NODE, c)
      in if map_of (pieces b) key \<noteq> None then Inl IllegalPlacement
         else Inr (b\<lparr>pieces := pieces b @ [(key, pc)]\<rparr>))"

definition demo_get_pieces :: "board \<Rightarrow> piece_type list \<Rightarrow> int \<Rightarrow> piece list" where
  "demo_get_pieces b types c =
     map snd (filter (\<lambda>(k, pc). snd k = c \<and> ptype pc \<in> set types) (pieces b))"

definition empty_board :: board where
  "empty_board = \<lparr>tiles = [], ports = [], pieces = [], locked = False, opts = [],
                   player_to_pieces = []\<rparr>"

definition demo_env :: env where
  "demo_env =
     \<lparr>is_in_pregame = demo_is_in_pregame,
      next_player = demo_next_player,
      can_end_game = (\<lambda>w s. False),
      place_piece = demo_place_piece,
      get_pieces = demo_get_pieces,
      Board_restore = (\<lambda>b snap. snap),
      Board_restore_notifies = (\<lambda>b snap. 1),
      Board_new = empty_board,
      Opt_debug = ''debug'',
      nodes_touching_tile = (\<lambda>t. map (\<lambda>i. 10 * t + i) [1, 2, 3, 4, 5, 6]),
      adjacent_tiles_to_node = (\<lambda>n. [n div 10]),
      legal_tile_ids = [1, 2, 3],
      tile_id_from_coord = (\<lambda>c. c),
      location = (\<lambda>k c. ''somewhere''),
      agent_move = (\<lambda>a g w. Inr w)\<rparr>"

text \<open>The store before anything is allocated, and the players of the examples.\<close>

definition empty_world :: world where
  "empty_world =
     \<lparr>games = (\<lambda>_. \<lparr>observers = 0, undo_manager = 0, options = [], players = [], board = 0,
                      robber = \<lparr>ptype = Robber, owner = None\<rparr>, catanlog = NoopCatanLog,
                      state = None, dev_card_state = None, cur_player = None,
                      last_roll = None, last_player_to_roll = None, cur_turn = 0,
                      robber_tile = None, terrain_to_tiles = [], player_to_resources = []\<rparr>),
      states = (\<lambda>_. \<lparr>kind = NotInGame, sgame = 0\<rparr>),
      boards = (\<lambda>_. empty_board),
      obs_sets = (\<lambda>_. {}),
      undo_mgrs = (\<lambda>_. \<lparr>undo_stack = [], redo_stack = []\<rparr>),
      next_addr = 0,
      trace = []\<rparr>"

definition ann :: player where
  "ann = \<lparr>seat = 1, name = ''ann'', color = ''red''\<rparr>"

definition bob :: player where
  "bob = \<lparr>seat = 2, name = ''bob'', color = ''blue''\<rparr>"

text \<open>
  A Game object is well placed in the store when it and the objects it refers to lie below
  the allocation pointer, so that a newly allocated object is none of them.
\<close>

definition allocated :: "addr \<Rightarrow> world \<Rightarrow> bool" where
  "allocated g w =
     (g < next_addr w
      \<and> observers (games w g) < next_addr w
      \<and> board (games w g) < next_addr w
      \<and> undo_manager (games w g) < next_addr w
      \<and> (state (games w g) = None \<or> the (state (games w g)) < next_addr w))"

text \<open>The variant of the state object that a Game currently holds.\<close>

definition state_kind_of :: "addr \<Rightarrow> world \<Rightarrow> state_kind option" where
  "state_kind_of g w = map_option (\<lambda>s. kind (states w s)) (state (games w g))"

text \<open>The lock flag of the board that a Game holds.\<close>

definition board_locked :: "addr \<Rightarrow> world \<Rightarrow> bool" where
  "board_locked g w = locked (boards w (board (games w g)))"

text \<open>
  Registering an observer, as the class comment of Game prescribes:
  \<^verbatim>\<open>game.observers.add(obs)\<close> mutates the set object the Game refers to.
\<close>

definition observers_add :: "addr \<Rightarrow> observer \<Rightarrow> world \<Rightarrow> world" where
  "observers_add g obs w =
     w\<lparr>obs_sets := (obs_sets w)
          (observers (games w g) := insert obs (obs_sets w (observers (games w g))))\<rparr>"

text \<open>The observers currently registered with a Game.\<close>

definition registered :: "addr \<Rightarrow> world \<Rightarrow> observer set" where
  "registered g w = obs_sets w (observers (games w g))"

text \<open>
  What a call added to the trace: the events after those already in \<open>w\<close>; among them the
  rounds of notifications, and the calls that concern the end of the game.
\<close>

definition new_events :: "world \<Rightarrow> world \<Rightarrow> event list" where
  "new_events w w' = drop (length (trace w)) (trace w')"

fun is_notification :: "event \<Rightarrow> bool" where
  "is_notification (Notified g obs v) = True"
| "is_notification e = False"

fun is_gate_event :: "event \<Rightarrow> bool" where
  "is_gate_event (Notified g obs v) = False"
| "is_gate_event e = True"

definition notifications :: "world \<Rightarrow> world \<Rightarrow> event list" where
  "notifications w w' = filter is_notification (new_events w w')"

definition gate_events :: "world \<Rightarrow> world \<Rightarrow> event list" where
  "gate_events w w' = filter is_gate_event (new_events w w')"

text \<open>The observers that a round of notifications reached.\<close>

fun notified_set :: "event \<Rightarrow> observer set" where
  "notified_set (Notified g obs v) = obs"
| "notified_set e = {}"

text \<open>
  The Game of the examples: \<^verbatim>\<open>Game()\<close> built in the empty store with logging and pregame
  on; it lies at address \<open>g0\<close>.
\<close>

definition g0 :: addr where
  "g0 = fst (Game_init demo_env [] None ''on'' (Some ''on'') empty_world)"

definition w0 :: world where
  "w0 = snd (Game_init demo_env [] None ''on'' (Some ''on'') empty_world)"

text \<open>
  Three points inside \<^verbatim>\<open>end_turn\<close>, for a Game whose current player reads as \<open>p\<close> and whose
  state object is \<open>s\<close>: the player \<^verbatim>\<open>next_player()\<close> returns (line 516); the store in which
  \<^verbatim>\<open>can_end_game()\<close> is evaluated (line 518), where the end of the turn has been logged and
  that player has become the current player; and the store in which \<^verbatim>\<open>is_in_pregame()\<close> is
  evaluated (line 527) when \<^verbatim>\<open>can_end_game()\<close> has returned \<^verbatim>\<open>False\<close>, where the turn counter
  has been incremented and the dev-card state reset.
\<close>

definition next_of :: "env \<Rightarrow> addr \<Rightarrow> player \<Rightarrow> addr \<Rightarrow> world \<Rightarrow> player" where
  "next_of E g p s w = next_player E (log_to g (Log_ends_turn p) w) s"

definition at_can_end_game :: "env \<Rightarrow> addr \<Rightarrow> player \<Rightarrow> addr \<Rightarrow> world \<Rightarrow> world" where
  "at_can_end_game E g p s w =
     upd_game g (\<lambda>x. x\<lparr>cur_player := Some (next_of E g p s w)\<rparr>)
       (emit (NextPlayerCalled (next_of E g p s w)) (log_to g (Log_ends_turn p) w))"

definition at_is_in_pregame :: "env \<Rightarrow> addr \<Rightarrow> player \<Rightarrow> addr \<Rightarrow> world \<Rightarrow> world" where
  "at_is_in_pregame E g p s w =
     set_dev_card_state g DevCardNotPlayedState
       (upd_game g (\<lambda>x. x\<lparr>cur_turn := cur_turn x + 1\<rparr>)
          (emit (CanEndGameCalled False) (at_can_end_game E g p s w)))"

text \<open>
  A position for the robber examples: the robber stands on tile 1 and ann is to move; ann
  has a settlement on node 11 and bob a city on node 12, both touching tile 1; bob has a road
  on edge 13, and cat has a settlement on node 21, which touches tile 2 only.
\<close>

definition cat :: player where
  "cat = \<lparr>seat = 3, name = ''cat'', color = ''white''\<rparr>"

definition w_robber :: world where
  "w_robber =
     upd_game g0 (\<lambda>x. x\<lparr>robber_tile := Some 1, cur_player := Some ann\<rparr>)
       (upd_board (board (games w0 g0))
          (\<lambda>b. b\<lparr>pieces := [((NODE, 11), \<lparr>ptype = Settlement, owner = Some ann\<rparr>),
                              ((NODE, 12), \<lparr>ptype = City, owner = Some bob\<rparr>),
                              ((EDGE, 13), \<lparr>ptype = Road, owner = Some bob\<rparr>),
                              ((NODE, 21), \<lparr>ptype = Settlement, owner = Some cat\<rparr>)]\<rparr>)
          w0)"

text \<open>
  The example Game on a board whose option \<^verbatim>\<open>players\<close> is \<^verbatim>\<open>Opt.debug\<close>, and the four
  players that \<^verbatim>\<open>get_debug_players\<close> builds.
\<close>

definition w_debug :: world where
  "w_debug = upd_board (board (games w0 g0)) (\<lambda>b. b\<lparr>opts := [(''players'', ''debug'')]\<rparr>) w0"

definition debug_players :: "player list" where
  "debug_players =
     [\<lparr>seat = 1, name = ''abdur'', color = ''green''\<rparr>,
      \<lparr>seat = 2, name = ''qlearn'', color = ''blue''\<rparr>,
      \<lparr>seat = 3, name = ''vitor'', color = ''orange''\<rparr>,
      \<lparr>seat = 4, name = ''brian'', color = ''red''\<rparr>]"

section \<open>Player: construction, equality and hashing\<close>

lemma remove_spaces_no_space: "CHR '' '' \<notin> set (remove_spaces s)"
  by (simp add: remove_spaces_def)

lemma lower_char_not_upper: "\<not> is_upper (lower_char c)"
proof (cases "is_upper c")
  case True
  then have "(of_char c :: nat) + 32 < 256" and "90 < (of_char c :: nat) + 32"
    by (simp_all add: is_upper_def)
  then show ?thesis
    using True by (simp add: lower_char_def is_upper_def)
next
  case False
  then show ?thesis by (simp add: lower_char_def)
qed

lemma str_lower_no_upper: "list_all (\<lambda>c. \<not> is_upper c) (remove_spaces (str_lower s))"
  by (induction s) (simp_all add: remove_spaces_def str_lower_def lower_char_not_upper)

lemma lower_char_idem: "lower_char (lower_char c) = lower_char c"
  using lower_char_not_upper [of c] by (simp add: lower_char_def [of "lower_char c"])

lemma lower_char_space: "lower_char c = CHR '' '' \<longleftrightarrow> c = CHR '' ''"
proof
  assume h: "lower_char c = CHR '' ''"
  show "c = CHR '' ''"
  proof (cases "is_upper c")
    case True
    then have b: "(of_char c :: nat) + 32 < 256" and "65 \<le> (of_char c :: nat)"
      by (simp_all add: is_upper_def)
    from h True have "char_of (of_char c + 32 :: nat) = CHR '' ''"
      by (simp add: lower_char_def)
    then have "of_char (char_of (of_char c + 32 :: nat) :: char) = (32 :: nat)"
      by simp
    with b have "(of_char c :: nat) + 32 = 32" by simp
    with \<open>65 \<le> (of_char c :: nat)\<close> show ?thesis by simp
  next
    case False
    with h show ?thesis by (simp add: lower_char_def)
  qed
next
  assume "c = CHR '' ''"
  then show "lower_char c = CHR '' ''" by (simp add: lower_char_def is_upper_def)
qed

lemma normalize_idem:
  "remove_spaces (str_lower (remove_spaces (str_lower s))) = remove_spaces (str_lower s)"
  by (induction s) (simp_all add: remove_spaces_def str_lower_def lower_char_idem lower_char_space)

text \<open>
  C8.  Constructing a Player fails exactly when the seat is outside 1..4, with the
  exception \<^verbatim>\<open>Exception("Seat must be on [1,4]")\<close> (the failure the specification calls
  InvalidPlayer).  With a seat in 1..4 the construction succeeds: the seat is kept, and
  name and color are the arguments lowercased with every space removed, so they hold no
  space and no upper-case letter.
\<close>

theorem Player_init_seat_and_normalisation:
  "(\<not> (1 \<le> s \<and> s \<le> 4) \<longrightarrow> Player_init s n c = Inl (Exception ''Seat must be on [1,4]''))
   \<and> (1 \<le> s \<and> s \<le> 4 \<longrightarrow>
        (\<exists>p. Player_init s n c = Inr p
           \<and> seat p = s
           \<and> name p = remove_spaces (str_lower n)
           \<and> color p = remove_spaces (str_lower c)
           \<and> CHR '' '' \<notin> set (name p) \<and> CHR '' '' \<notin> set (color p)
           \<and> list_all (\<lambda>x. \<not> is_upper x) (name p)
           \<and> list_all (\<lambda>x. \<not> is_upper x) (color p)))"
  by (simp add: Player_init_def remove_spaces_no_space str_lower_no_upper)

theorem Player_init_seat_and_normalisation_witness:
  "Player_init 0 ''Ann'' ''Red'' = Inl (Exception ''Seat must be on [1,4]'')
   \<and> Player_init 5 ''Ann'' ''Red'' = Inl (Exception ''Seat must be on [1,4]'')
   \<and> Player_init 2 ''Ann Lee'' ''Dark Red'' = Inr \<lparr>seat = 2, name = ''annlee'', color = ''darkred''\<rparr>"
proof -
  have a: "Player_init 0 ''Ann'' ''Red'' = Inl (Exception ''Seat must be on [1,4]'')"
    using Player_init_seat_and_normalisation [of 0 "''Ann''" "''Red''"] by simp
  have b: "Player_init 5 ''Ann'' ''Red'' = Inl (Exception ''Seat must be on [1,4]'')"
    using Player_init_seat_and_normalisation [of 5 "''Ann''" "''Red''"] by simp
  have e1: "remove_spaces (str_lower ''Ann Lee'') = ''annlee''" by code_simp
  have e2: "remove_spaces (str_lower ''Dark Red'') = ''darkred''" by code_simp
  have c: "Player_init 2 ''Ann Lee'' ''Dark Red''
             = Inr \<lparr>seat = 2, name = ''annlee'', color = ''darkred''\<rparr>"
    using Player_init_seat_and_normalisation [of 2 "''Ann Lee''" "''Dark Red''"] e1 e2
    by auto
  from a b c show ?thesis by simp
qed

lemma Player_init_fixed:
  assumes "Player_init s n c = Inr p"
  shows "Player_init (seat p) (name p) (color p) = Inr p"
proof -
  from assms have r: "1 \<le> s \<and> s \<le> 4"
    and p: "p = \<lparr>seat = s, name = remove_spaces (str_lower n), color = remove_spaces (str_lower c)\<rparr>"
    by (auto simp add: Player_init_def split: if_splits)
  show ?thesis
    unfolding p using r by (simp add: Player_init_def normalize_idem)
qed

lemma sum_list_bytes_append:
  "sum_list (map (\<lambda>c. of_char c) (xs @ ys)) = (sum_list (map (\<lambda>c. of_char c) xs) :: int) + sum_list (map (\<lambda>c. of_char c) ys)"
  by simp

lemma Player_hash_formula:
  "Player_hash p = sum_list (map (\<lambda>c. of_char c) (color p)) + sum_list (map (\<lambda>c. of_char c) (name p)) + 113"
  by (simp add: Player_hash_def Player_repr_def)

text \<open>
  C9.  Player equality and hashing are by the triple (seat, name, color).  Two Players are
  equal exactly when their seats, names and colors (the normalised strings the constructor
  stored) are all equal; a Player equals neither \<^verbatim>\<open>None\<close> nor an object of another class;
  equal Players have equal hashes; and the hash is a function of the triple: the sum of the
  bytes of the color, of the name, and of the three characters \<^verbatim>\<open> ()\<close> (32 + 40 + 41).
\<close>

theorem Player_eq_hash_by_triple:
  "(Player_eq p (PyPlayer q) \<longleftrightarrow> seat p = seat q \<and> name p = name q \<and> color p = color q)
   \<and> \<not> Player_eq p PyNone \<and> \<not> Player_eq p PyOther
   \<and> (Player_init s n c = Inr p \<and> Player_init s' n' c' = Inr q \<longrightarrow>
        (Player_eq p (PyPlayer q) \<longleftrightarrow>
           s = s' \<and> remove_spaces (str_lower n) = remove_spaces (str_lower n')
                  \<and> remove_spaces (str_lower c) = remove_spaces (str_lower c')))
   \<and> (Player_eq p (PyPlayer q) \<longrightarrow> Player_hash p = Player_hash q)
   \<and> Player_hash p = sum_list (map (\<lambda>x. of_char x) (color p)) + sum_list (map (\<lambda>x. of_char x) (name p)) + 113"
proof -
  have a: "Player_eq p (PyPlayer q) \<longleftrightarrow> seat p = seat q \<and> name p = name q \<and> color p = color q"
    by (auto simp add: Player_eq_def)
  have b: "\<not> Player_eq p PyNone \<and> \<not> Player_eq p PyOther"
    by (simp add: Player_eq_def)
  have c: "Player_init s n c = Inr p \<and> Player_init s' n' c' = Inr q \<longrightarrow>
        (Player_eq p (PyPlayer q) \<longleftrightarrow>
           s = s' \<and> remove_spaces (str_lower n) = remove_spaces (str_lower n')
                  \<and> remove_spaces (str_lower c) = remove_spaces (str_lower c'))"
    by (auto simp add: Player_eq_def Player_init_def split: if_splits)
  have d: "Player_eq p (PyPlayer q) \<longrightarrow> Player_hash p = Player_hash q"
    by (simp add: a Player_hash_def Player_repr_def)
  from a b c d Player_hash_formula [of p] show ?thesis by blast
qed

theorem Player_eq_hash_by_triple_witness:
  "Player_eq ann (PyPlayer ann) \<and> \<not> Player_eq ann (PyPlayer bob)
   \<and> Player_init 1 ''Ann'' ''Red'' = Inr ann \<and> Player_init 1 ''a n n'' ''RED'' = Inr ann
   \<and> Player_hash ann = 745"
proof -
  have e: "Player_init 1 ''Ann'' ''Red'' = Inr ann" "Player_init 1 ''a n n'' ''RED'' = Inr ann"
    by (code_simp)+
  have h: "Player_hash ann = 745"
    using Player_eq_hash_by_triple [of ann ann] by (simp add: ann_def)
  have "Player_eq ann (PyPlayer ann)"
    using Player_eq_hash_by_triple [of ann ann 1 "''Ann''" "''Red''" 1 "''a n n''" "''RED''"] e
    by simp
  moreover have "\<not> Player_eq ann (PyPlayer bob)"
    using Player_eq_hash_by_triple [of ann bob] by (simp add: ann_def bob_def)
  ultimately show ?thesis using e h by simp
qed

section \<open>Setting the players\<close>

lemma set_cur_player_built:
  assumes "Player_init s n c = Inr p"
  shows "set_cur_player g p w = Inr (upd_game g (\<lambda>x. x\<lparr>cur_player := Some p\<rparr>) w)"
  using Player_init_fixed [OF assms] by (simp add: set_cur_player_def and_then_def)

lemma set_players_empty: "set_players g [] w = Inl IndexError"
  by (simp add: set_players_def upd_game_def)

lemma set_players_cons:
  assumes "Player_init s n c = Inr p"
  shows "set_players g (p # ps) w =
           Inr (notify_observers g (upd_game g (\<lambda>x. x\<lparr>cur_player := Some p\<rparr>)
                  (upd_game g (\<lambda>x. x\<lparr>players := p # ps\<rparr>) w)))"
  by (simp add: set_players_def Let_def set_cur_player_built [OF assms] and_then_def upd_game_def)

lemma Game_copy_keeps:
  assumes "allocated g w"
  shows "games (snd (Game_copy g w)) g = games w g"
    and "boards (snd (Game_copy g w)) (board (games w g)) = boards w (board (games w g))"
    and "obs_sets (snd (Game_copy g w)) (observers (games w g)) = obs_sets w (observers (games w g))"
    and "states (snd (Game_copy g w)) = states w"
    and "undo_mgrs (snd (Game_copy g w)) = undo_mgrs w"
    and "trace (snd (Game_copy g w)) = trace w"
    and "next_addr (snd (Game_copy g w)) = Suc (Suc (Suc (next_addr w)))"
  using assms by (simp_all add: Game_copy_def Game_deepcopy_def Let_def allocated_def)

lemma start_empty:
  assumes "allocated g w"
    and "map_of (opts (boards w (board (games w g)))) ''players'' \<noteq> Some (Opt_debug E)"
  shows "start E g [] w = Inl IndexError"
proof -
  obtain b w1 where c: "Game_copy g w = (b, w1)" by (cases "Game_copy g w")
  have k: "games w1 g = games w g" "boards w1 (board (games w g)) = boards w (board (games w g))"
    using Game_copy_keeps(1,2) [OF assms(1)] c by simp_all
  have "start_body E g [] w1 = Inl IndexError"
    using assms(2) k
    by (simp add: start_body_def reset_def Let_def GameState_new_def upd_game_def
        notify_observers_def set_players_def and_then_def)
  then show ?thesis
    by (simp add: start_def undoable_def Game_do_def UndoManager_do_def c and_then_def)
qed

section \<open>Facts about the example store\<close>

lemma g0_eq: "g0 = 0"
  by (simp add: g0_def Game_init_def empty_world_def Let_def GameState_new_def)

lemmas w0_unfold = w0_def Game_init_def empty_world_def Let_def GameState_new_def set_state_def
  set_dev_card_state_def notify_observers_def upd_game_def upd_board_def demo_env_def
  is_in_game_def Board_unlock_def Board_lock_def empty_board_def

lemma w0_game:
  "games w0 0 = \<lparr>observers = 1, undo_manager = 2, options = [(''pregame'', Some ''on'')],
       players = [], board = 3, robber = \<lparr>ptype = Robber, owner = None\<rparr>,
       catanlog = CatanLog [], state = Some 4, dev_card_state = Some DevCardNotPlayedState,
       cur_player = None, last_roll = None, last_player_to_roll = None, cur_turn = 0,
       robber_tile = None, terrain_to_tiles = [], player_to_resources = []\<rparr>"
  by (simp add: w0_unfold)

lemma w0_next_addr: "next_addr w0 = 5"
  by (simp add: w0_unfold)

lemma w0_board: "boards w0 3 = empty_board"
  by (simp add: w0_unfold)

lemma w0_state: "states w0 4 = \<lparr>kind = NotInGame, sgame = 0\<rparr>"
  by (simp add: w0_unfold)

lemma w0_undo_mgr: "undo_mgrs w0 2 = \<lparr>undo_stack = [], redo_stack = []\<rparr>"
  by (simp add: w0_unfold)

lemma w0_obs: "obs_sets w0 (Suc 0) = {}"
  by (simp add: w0_unfold)

lemma w0_allocated: "allocated g0 w0"
  by (simp add: allocated_def g0_eq w0_game w0_next_addr)

lemma w0_cur_player: "get_cur_player g0 w0 = Inr \<lparr>seat = 1, name = ''nobody'', color = ''nobody''\<rparr>"
  by (simp add: get_cur_player_def g0_eq w0_game Player_init_def remove_spaces_def str_lower_def lower_char_def is_upper_def)

lemma built_ann: "Player_init 1 ''Ann'' ''Red'' = Inr ann"
  by code_simp

lemma built_bob: "Player_init 2 ''Bob'' ''Blue'' = Inr bob"
  by code_simp

section \<open>Effects of the store operations\<close>

lemma get_cur_player_cong:
  "cur_player (games w' g) = cur_player (games w g) \<Longrightarrow> get_cur_player g w' = get_cur_player g w"
  by (simp add: get_cur_player_def)

lemma Game_copy_allocated:
  assumes "allocated g w"
  shows "allocated g (snd (Game_copy g w))"
  using assms by (auto simp add: Game_copy_def Game_deepcopy_def Let_def allocated_def split: option.splits)

lemma Game_copy_fst: "fst (Game_copy g w) = next_addr w"
  by (simp add: Game_copy_def Game_deepcopy_def Let_def)

lemma undoable_result:
  assumes a: "allocated g w"
    and b: "body g (snd (Game_copy g w)) = Inr w2"
    and c: "allocated g w2"
  shows "\<exists>w3. undoable body g w = Inr w3
      \<and> games w3 g = games w2 g
      \<and> states w3 = states w2
      \<and> boards w3 (board (games w2 g)) = boards w2 (board (games w2 g))
      \<and> obs_sets w3 (observers (games w2 g)) = obs_sets w2 (observers (games w2 g))
      \<and> allocated g w3
      \<and> trace w3 = trace w2 @ [Notified g (obs_sets w2 (observers (games w2 g))) (games w2 g)]
      \<and> undo_mgrs w3 (undo_manager (games w g)) =
           \<lparr>undo_stack = \<lparr>before = next_addr w, after = next_addr w2\<rparr>
                            # undo_stack (undo_mgrs w2 (undo_manager (games w g))),
            redo_stack = []\<rparr>"
proof -
  obtain s1 w1 where c1: "Game_copy g w = (s1, w1)" by (cases "Game_copy g w")
  obtain s2 v where c2: "Game_copy g w2 = (s2, v)" by (cases "Game_copy g w2")
  have s1: "s1 = next_addr w" using Game_copy_fst [of g w] c1 by simp
  have s2: "s2 = next_addr w2" using Game_copy_fst [of g w2] c2 by simp
  have k1: "games w1 g = games w g" using Game_copy_keeps(1) [OF a] c1 by simp
  have b': "body g w1 = Inr w2" using b c1 by simp
  have k2: "games v g = games w2 g"
    "boards v (board (games w2 g)) = boards w2 (board (games w2 g))"
    "obs_sets v (observers (games w2 g)) = obs_sets w2 (observers (games w2 g))"
    "states v = states w2" "undo_mgrs v = undo_mgrs w2" "trace v = trace w2"
    using Game_copy_keeps [OF c] c2 by simp_all
  have al: "allocated g v" using Game_copy_allocated [OF c] c2 by simp
  define um where "um = undo_manager (games w g)"
  define w3 where "w3 = notify_observers g (v\<lparr>undo_mgrs := (undo_mgrs v)
       (um := \<lparr>undo_stack = \<lparr>before = s1, after = s2\<rparr> # undo_stack (undo_mgrs v um),
               redo_stack = []\<rparr>)\<rparr>)"
  have r: "undoable body g w = Inr w3"
    by (simp add: undoable_def Game_do_def UndoManager_do_def c1 b' c2 and_then_def w3_def um_def)
  have "allocated g w3"
    using al by (simp add: w3_def allocated_def notify_observers_def split: option.splits)
  then show ?thesis
    using r k2 s1 s2 by (simp add: w3_def notify_observers_def um_def)
qed

lemma upd_game_sel:
  "games (upd_game g f w) = (games w)(g := f (games w g))"
  "states (upd_game g f w) = states w"
  "boards (upd_game g f w) = boards w"
  "obs_sets (upd_game g f w) = obs_sets w"
  "undo_mgrs (upd_game g f w) = undo_mgrs w"
  "next_addr (upd_game g f w) = next_addr w"
  "trace (upd_game g f w) = trace w"
  by (simp_all add: upd_game_def)

lemma upd_board_sel:
  "games (upd_board b f w) = games w"
  "states (upd_board b f w) = states w"
  "boards (upd_board b f w) = (boards w)(b := f (boards w b))"
  "obs_sets (upd_board b f w) = obs_sets w"
  "undo_mgrs (upd_board b f w) = undo_mgrs w"
  "next_addr (upd_board b f w) = next_addr w"
  "trace (upd_board b f w) = trace w"
  by (simp_all add: upd_board_def)

lemma log_to_sel:
  "games (log_to g e w) = (games w)(g := (games w g)\<lparr>catanlog := log_call e (catanlog (games w g))\<rparr>)"
  "states (log_to g e w) = states w"
  "boards (log_to g e w) = boards w"
  "obs_sets (log_to g e w) = obs_sets w"
  "undo_mgrs (log_to g e w) = undo_mgrs w"
  "next_addr (log_to g e w) = next_addr w"
  "trace (log_to g e w) = trace w"
  by (simp_all add: log_to_def upd_game_def)

lemma emit_sel:
  "games (emit e w) = games w"
  "states (emit e w) = states w"
  "boards (emit e w) = boards w"
  "obs_sets (emit e w) = obs_sets w"
  "undo_mgrs (emit e w) = undo_mgrs w"
  "next_addr (emit e w) = next_addr w"
  "trace (emit e w) = trace w @ [e]"
  by (simp_all add: emit_def)

lemma notify_observers_sel:
  "games (notify_observers g w) = games w"
  "states (notify_observers g w) = states w"
  "boards (notify_observers g w) = boards w"
  "obs_sets (notify_observers g w) = obs_sets w"
  "undo_mgrs (notify_observers g w) = undo_mgrs w"
  "next_addr (notify_observers g w) = next_addr w"
  "trace (notify_observers g w) = trace w @ [Notified g (obs_sets w (observers (games w g))) (games w g)]"
  by (simp_all add: notify_observers_def)

lemma notify_rounds_sel:
  "games ((notify g b ^^ n) w) = games w"
  "states ((notify g b ^^ n) w) = states w"
  "boards ((notify g b ^^ n) w) = boards w"
  "obs_sets ((notify g b ^^ n) w) = obs_sets w"
  "undo_mgrs ((notify g b ^^ n) w) = undo_mgrs w"
  "next_addr ((notify g b ^^ n) w) = next_addr w"
  "trace ((notify g b ^^ n) w) =
     trace w @ replicate n (Notified g (obs_sets w (observers (games w g))) (games w g))"
proof -
  have "games ((notify g b ^^ n) w) = games w
      \<and> states ((notify g b ^^ n) w) = states w
      \<and> boards ((notify g b ^^ n) w) = boards w
      \<and> obs_sets ((notify g b ^^ n) w) = obs_sets w
      \<and> undo_mgrs ((notify g b ^^ n) w) = undo_mgrs w
      \<and> next_addr ((notify g b ^^ n) w) = next_addr w
      \<and> trace ((notify g b ^^ n) w) =
          trace w @ replicate n (Notified g (obs_sets w (observers (games w g))) (games w g))"
  proof (induction n)
    case 0
    show ?case by simp
  next
    case (Suc n)
    then show ?case
      by (simp add: notify_def notify_observers_sel replicate_append_same)
  qed
  then show
    "games ((notify g b ^^ n) w) = games w"
    "states ((notify g b ^^ n) w) = states w"
    "boards ((notify g b ^^ n) w) = boards w"
    "obs_sets ((notify g b ^^ n) w) = obs_sets w"
    "undo_mgrs ((notify g b ^^ n) w) = undo_mgrs w"
    "next_addr ((notify g b ^^ n) w) = next_addr w"
    "trace ((notify g b ^^ n) w) =
       trace w @ replicate n (Notified g (obs_sets w (observers (games w g))) (games w g))"
    by simp_all
qed

lemma GameState_new_sel:
  "fst (GameState_new k g w) = next_addr w"
  "games (snd (GameState_new k g w)) = games w"
  "states (snd (GameState_new k g w)) = (states w)(next_addr w := \<lparr>kind = k, sgame = g\<rparr>)"
  "boards (snd (GameState_new k g w)) = boards w"
  "obs_sets (snd (GameState_new k g w)) = obs_sets w"
  "undo_mgrs (snd (GameState_new k g w)) = undo_mgrs w"
  "next_addr (snd (GameState_new k g w)) = Suc (next_addr w)"
  "trace (snd (GameState_new k g w)) = trace w"
  by (simp_all add: GameState_new_def)

lemma set_state_sel:
  "games (set_state g s w) = (games w)(g := (games w g)\<lparr>state := Some s\<rparr>)"
  "states (set_state g s w) = states w"
  "boards (set_state g s w) =
     (boards w)(board (games w g) :=
        (if is_in_game (kind (states w s)) then Board_lock (boards w (board (games w g)))
         else Board_unlock (boards w (board (games w g)))))"
  "obs_sets (set_state g s w) = obs_sets w"
  "undo_mgrs (set_state g s w) = undo_mgrs w"
  "next_addr (set_state g s w) = next_addr w"
  "trace (set_state g s w) =
     trace w @ [Notified g (obs_sets w (observers (games w g))) ((games w g)\<lparr>state := Some s\<rparr>)]"
  by (simp_all add: set_state_def Let_def upd_game_def upd_board_def notify_observers_def)

lemma set_dev_card_state_sel:
  "games (set_dev_card_state g d w) = (games w)(g := (games w g)\<lparr>dev_card_state := Some d\<rparr>)"
  "states (set_dev_card_state g d w) = states w"
  "boards (set_dev_card_state g d w) = boards w"
  "obs_sets (set_dev_card_state g d w) = obs_sets w"
  "undo_mgrs (set_dev_card_state g d w) = undo_mgrs w"
  "next_addr (set_dev_card_state g d w) = next_addr w"
  "trace (set_dev_card_state g d w) =
     trace w @ [Notified g (obs_sets w (observers (games w g))) ((games w g)\<lparr>dev_card_state := Some d\<rparr>)]"
  by (simp_all add: set_dev_card_state_def upd_game_def notify_observers_def)

lemmas store_sel = upd_game_sel upd_board_sel log_to_sel emit_sel notify_observers_sel
  notify_rounds_sel GameState_new_sel set_state_sel set_dev_card_state_sel

lemma roll_body_result:
  assumes "get_cur_player g w = Inr p"
  shows "\<exists>w'. roll_body g r w = Inr w'
     \<and> state_kind_of g w' = Some (if r = 7 then MoveRobber else DuringTurnAfterRoll)
     \<and> last_roll (games w' g) = Some r
     \<and> last_player_to_roll (games w' g) = Some p
     \<and> cur_player (games w' g) = cur_player (games w g)
     \<and> dev_card_state (games w' g) = dev_card_state (games w g)
     \<and> board_locked g w'
     \<and> (allocated g w \<longrightarrow> allocated g w')
     \<and> sgame (states w' (the (state (games w' g)))) = g
     \<and> players (games w' g) = players (games w g)
     \<and> board (games w' g) = board (games w g)
     \<and> boards w' (board (games w g)) = Board_lock (boards w (board (games w g)))"
proof -
  have "get_cur_player g (upd_game g (\<lambda>x. x\<lparr>last_roll := Some r\<rparr>) (log_to g (Log_roll p r) w))
          = get_cur_player g w"
    by (rule get_cur_player_cong) (simp add: store_sel)
  with assms have q:
    "get_cur_player g (upd_game g (\<lambda>x. x\<lparr>last_roll := Some r\<rparr>) (log_to g (Log_roll p r) w)) = Inr p"
    by simp
  show ?thesis
    by (simp add: roll_body_def assms q and_then_def Let_def split_beta store_sel
        state_kind_of_def is_in_game_def Board_lock_def board_locked_def allocated_def)
qed

lemma play_knight_body_result:
  "\<exists>w'. play_knight_body g w = Inr w'
     \<and> state_kind_of g w' = Some MoveRobberUsingKnight
     \<and> dev_card_state (games w' g) = Some DevCardPlayedState
     \<and> cur_player (games w' g) = cur_player (games w g)
     \<and> (allocated g w \<longrightarrow> allocated g w')"
  by (simp add: play_knight_body_def Let_def split_beta store_sel
        state_kind_of_def allocated_def)

section \<open>Rolling the dice\<close>

lemma roll_result:
  assumes a: "allocated g w" and c: "get_cur_player g w = Inr p"
  shows "\<exists>w'. roll g r w = Inr w'
     \<and> state_kind_of g w' = Some (if r = 7 then MoveRobber else DuringTurnAfterRoll)
     \<and> last_roll (games w' g) = Some r
     \<and> last_player_to_roll (games w' g) = Some p
     \<and> cur_player (games w' g) = cur_player (games w g)
     \<and> dev_card_state (games w' g) = dev_card_state (games w g)
     \<and> board_locked g w'
     \<and> allocated g w'
     \<and> sgame (states w' (the (state (games w' g)))) = g
     \<and> players (games w' g) = players (games w g)
     \<and> board (games w' g) = board (games w g)
     \<and> boards w' (board (games w g)) = Board_lock (boards w (board (games w g)))"
proof -
  let ?w1 = "snd (Game_copy g w)"
  have a1: "allocated g ?w1" by (rule Game_copy_allocated [OF a])
  have k: "games ?w1 g = games w g"
    "boards ?w1 (board (games w g)) = boards w (board (games w g))"
    by (rule Game_copy_keeps(1,2) [OF a])+
  have c1: "get_cur_player g ?w1 = Inr p"
    using c get_cur_player_cong [of ?w1 g w] k by simp
  from roll_body_result [OF c1, of r] a1 k obtain w2 where
    w2: "roll_body g r ?w1 = Inr w2"
      "state_kind_of g w2 = Some (if r = 7 then MoveRobber else DuringTurnAfterRoll)"
      "last_roll (games w2 g) = Some r" "last_player_to_roll (games w2 g) = Some p"
      "cur_player (games w2 g) = cur_player (games w g)"
      "dev_card_state (games w2 g) = dev_card_state (games w g)"
      "board_locked g w2" "allocated g w2"
      "sgame (states w2 (the (state (games w2 g)))) = g"
      "players (games w2 g) = players (games w g)"
      "board (games w2 g) = board (games w g)"
      "boards w2 (board (games w g)) = Board_lock (boards w (board (games w g)))"
    by auto
  from undoable_result [of g w "\<lambda>self. roll_body self r" w2, OF a w2(1) w2(8)]
  obtain w3 where w3: "undoable (\<lambda>self. roll_body self r) g w = Inr w3"
      "games w3 g = games w2 g" "states w3 = states w2"
      "boards w3 (board (games w2 g)) = boards w2 (board (games w2 g))" "allocated g w3"
    by blast
  have "roll g r w = Inr w3" using w3(1) by (simp add: roll_def)
  moreover have "state_kind_of g w3 = state_kind_of g w2"
    using w3 by (simp add: state_kind_of_def)
  moreover have "board_locked g w3 = board_locked g w2"
    using w3 by (simp add: board_locked_def)
  ultimately show ?thesis using w2 w3 by simp
qed

lemma play_knight_result:
  assumes a: "allocated g w"
  shows "\<exists>w'. play_knight g w = Inr w'
     \<and> state_kind_of g w' = Some MoveRobberUsingKnight
     \<and> dev_card_state (games w' g) = Some DevCardPlayedState
     \<and> cur_player (games w' g) = cur_player (games w g)
     \<and> allocated g w'"
proof -
  let ?w1 = "snd (Game_copy g w)"
  have a1: "allocated g ?w1" by (rule Game_copy_allocated [OF a])
  have k: "games ?w1 g = games w g" by (rule Game_copy_keeps(1) [OF a])
  from play_knight_body_result [of g ?w1] a1 k obtain w2 where
    w2: "play_knight_body g ?w1 = Inr w2"
      "state_kind_of g w2 = Some MoveRobberUsingKnight"
      "dev_card_state (games w2 g) = Some DevCardPlayedState"
      "cur_player (games w2 g) = cur_player (games w g)"
      "allocated g w2"
    by auto
  from undoable_result [of g w play_knight_body w2, OF a w2(1) w2(5)]
  obtain w3 where w3: "undoable play_knight_body g w = Inr w3"
      "games w3 g = games w2 g" "states w3 = states w2" "allocated g w3"
    by blast
  have "play_knight g w = Inr w3" using w3(1) by (simp add: play_knight_def)
  moreover have "state_kind_of g w3 = state_kind_of g w2"
    using w3 by (simp add: state_kind_of_def)
  ultimately show ?thesis using w2 w3 by simp
qed

text \<open>
  C4 (as amended).  For every call of \<^verbatim>\<open>Game.roll\<close> on a Game whose current player can be
  read: if the value is 7 the installed state is MoveRobber, whatever the prior state, also
  when a knight was played just before; for every other value (2-6 and 8-12 among them) it
  is DuringTurnAfterRoll; and \<^verbatim>\<open>last_roll\<close> and \<^verbatim>\<open>last_player_to_roll\<close> are the value and the
  current player.
\<close>

theorem roll_installs_state:
  assumes "allocated g w" and "get_cur_player g w = Inr p"
  shows "\<exists>w'. roll g r w = Inr w'
     \<and> state_kind_of g w' = Some (if r = 7 then MoveRobber else DuringTurnAfterRoll)
     \<and> last_roll (games w' g) = Some r
     \<and> last_player_to_roll (games w' g) = Some p"
  using roll_result [OF assms, of r] by blast

theorem roll_installs_state_witness:
  "allocated g0 w0
   \<and> get_cur_player g0 w0 = Inr \<lparr>seat = 1, name = ''nobody'', color = ''nobody''\<rparr>
   \<and> (case roll g0 7 w0 of
        Inl e \<Rightarrow> False
      | Inr w' \<Rightarrow> state_kind_of g0 w' = Some MoveRobber \<and> last_roll (games w' g0) = Some 7
          \<and> last_player_to_roll (games w' g0) = Some \<lparr>seat = 1, name = ''nobody'', color = ''nobody''\<rparr>)
   \<and> (case roll g0 4 w0 of
        Inl e \<Rightarrow> False
      | Inr w' \<Rightarrow> state_kind_of g0 w' = Some DuringTurnAfterRoll \<and> last_roll (games w' g0) = Some 4)"
proof -
  from roll_installs_state [OF w0_allocated w0_cur_player, of 7]
  have seven: "case roll g0 7 w0 of
        Inl e \<Rightarrow> False
      | Inr w' \<Rightarrow> state_kind_of g0 w' = Some MoveRobber \<and> last_roll (games w' g0) = Some 7
          \<and> last_player_to_roll (games w' g0) = Some \<lparr>seat = 1, name = ''nobody'', color = ''nobody''\<rparr>"
    by auto
  from roll_installs_state [OF w0_allocated w0_cur_player, of 4]
  have four: "case roll g0 4 w0 of
        Inl e \<Rightarrow> False
      | Inr w' \<Rightarrow> state_kind_of g0 w' = Some DuringTurnAfterRoll \<and> last_roll (games w' g0) = Some 4"
    by auto
  from seven four w0_allocated w0_cur_player show ?thesis by simp
qed

text \<open>
  C4 as stated fails: right after a knight was played (\<^verbatim>\<open>play_knight\<close> on the example Game),
  rolling 7 installs MoveRobber, not MoveRobberUsingKnight.
\<close>

theorem roll_7_after_knight_counterexample:
  "case play_knight g0 w0 of
     Inl e \<Rightarrow> False
   | Inr w1 \<Rightarrow>
       dev_card_state (games w1 g0) = Some DevCardPlayedState
       \<and> state_kind_of g0 w1 = Some MoveRobberUsingKnight
       \<and> (case roll g0 7 w1 of
            Inl e \<Rightarrow> False
          | Inr w2 \<Rightarrow> state_kind_of g0 w2 = Some MoveRobber
                     \<and> state_kind_of g0 w2 \<noteq> Some MoveRobberUsingKnight)"
proof -
  from play_knight_result [OF w0_allocated] obtain w1 where
    w1: "play_knight g0 w0 = Inr w1" "state_kind_of g0 w1 = Some MoveRobberUsingKnight"
      "dev_card_state (games w1 g0) = Some DevCardPlayedState"
      "cur_player (games w1 g0) = cur_player (games w0 g0)" "allocated g0 w1"
    by blast
  have c: "get_cur_player g0 w1 = Inr \<lparr>seat = 1, name = ''nobody'', color = ''nobody''\<rparr>"
    using get_cur_player_cong [OF w1(4)] w0_cur_player by simp
  from roll_result [OF w1(5) c, of 7] obtain w2 where
    w2: "roll g0 7 w1 = Inr w2" "state_kind_of g0 w2 = Some MoveRobber"
    by auto
  show ?thesis using w1 w2 by simp
qed

section \<open>The board lock\<close>

lemma set_state_rederives_lock:
  "state_kind_of g (set_state g s w) = Some (kind (states w s))
   \<and> board_locked g (set_state g s w) = is_in_game (kind (states w s))"
  by (simp add: state_kind_of_def board_locked_def store_sel Board_lock_def Board_unlock_def)

lemma reset_keeps_lock:
  "state_kind_of g (reset g w) = Some NotInGame
   \<and> board_locked g (reset g w) = board_locked g w
   \<and> players (games (reset g w) g) = []
   \<and> cur_player (games (reset g w) g) = None
   \<and> cur_turn (games (reset g w) g) = 0"
  by (simp add: reset_def Let_def split_beta state_kind_of_def board_locked_def store_sel)

text \<open>
  C6 fails on \<^verbatim>\<open>Game.reset\<close>.  After \<^verbatim>\<open>roll(4)\<close> on the example Game the state is
  DuringTurnAfterRoll and the board is locked; \<^verbatim>\<open>reset()\<close> then assigns a NotInGame state
  to \<^verbatim>\<open>self.state\<close> without going through \<^verbatim>\<open>set_state\<close>, so the board stays locked although
  the state is not an in-game state.
\<close>

theorem reset_leaves_board_locked:
  "case roll g0 4 w0 of
     Inl e \<Rightarrow> False
   | Inr w1 \<Rightarrow>
       state_kind_of g0 w1 = Some DuringTurnAfterRoll
       \<and> board_locked g0 w1
       \<and> state_kind_of g0 (reset g0 w1) = Some NotInGame
       \<and> is_in_game NotInGame = False
       \<and> board_locked g0 (reset g0 w1)"
proof -
  from roll_result [OF w0_allocated w0_cur_player, of 4] obtain w1 where
    w1: "roll g0 4 w0 = Inr w1" "state_kind_of g0 w1 = Some DuringTurnAfterRoll" "board_locked g0 w1"
    by auto
  show ?thesis
    using w1 reset_keeps_lock [of g0 w1] by (simp add: is_in_game_def)
qed

section \<open>Ending a turn\<close>

lemma with_state_Some: "state (games w g) = Some s \<Longrightarrow> with_state g w f = f s"
  by (simp add: with_state_def)

lemma new_events_append: "trace w' = trace w @ es \<Longrightarrow> new_events w w' = es"
  by (simp add: new_events_def)

lemma get_cur_player_built:
  assumes "cur_player (games w g) = Some q" and "Player_init a b c = Inr q"
  shows "get_cur_player g w = Inr q"
  using assms(1) Player_init_fixed [OF assms(2)] by (simp add: get_cur_player_def)

lemma Game_end_result:
  assumes c: "get_cur_player g w = Inr p"
    and e: "player_to_pieces (boards w (board (games w g))) = []"
  shows "\<exists>w' es. Game_end E g w = Inr w'
     \<and> trace w' = trace w @ es
     \<and> filter is_gate_event es = [EndCalled g]
     \<and> length (filter is_notification es) = 2
     \<and> state_kind_of g w' = Some NotInGame
     \<and> \<not> board_locked g w'
     \<and> cur_player (games w' g) = cur_player (games w g)
     \<and> cur_turn (games w' g) = cur_turn (games w g)
     \<and> players (games w' g) = players (games w g)
     \<and> (allocated g w \<longrightarrow> allocated g w')"
proof -
  have c0: "get_cur_player g (emit (EndCalled g) w) = Inr p"
    using c get_cur_player_cong [of "emit (EndCalled g) w" g w] by (simp add: store_sel)
  show ?thesis
    by (simp add: Game_end_def Let_def c0 and_then_def evaluate_final_def e store_sel split_beta
        state_kind_of_def board_locked_def is_in_game_def Board_unlock_def allocated_def)
qed

lemma end_turn_core_unfold:
  assumes s: "state (games w g) = Some s"
    and c: "get_cur_player g w = Inr p"
    and n: "Player_init a b c = Inr (next_of E g p s w)"
    and f: "\<not> can_end_game E (at_can_end_game E g p s w) s"
  shows "end_turn_core E g w =
           (if is_in_pregame E (at_is_in_pregame E g p s w) s
            then Inr (set_state g (next_addr w)
                   (snd (GameState_new (PreGamePlacingPiece Settlement) g (at_is_in_pregame E g p s w))))
            else Game_end E g (at_is_in_pregame E g p s w))"
proof -
  let ?w1 = "log_to g (Log_ends_turn p) w"
  let ?np = "next_of E g p s w"
  let ?w2 = "emit (NextPlayerCalled ?np) ?w1"
  let ?w3 = "at_can_end_game E g p s w"
  let ?w7 = "at_is_in_pregame E g p s w"
  have s1: "state (games ?w1 g) = Some s" using s by (simp add: store_sel)
  have sc: "set_cur_player g ?np ?w2 = Inr ?w3"
    using set_cur_player_built [OF n, of g ?w2] by (simp add: at_can_end_game_def)
  have s3: "state (games ?w3 g) = Some s" using s by (simp add: at_can_end_game_def store_sel)
  have s7: "state (games ?w7 g) = Some s"
    using s by (simp add: at_is_in_pregame_def at_can_end_game_def store_sel)
  have n7: "next_addr ?w7 = next_addr w"
    by (simp add: at_is_in_pregame_def at_can_end_game_def store_sel)
  have np: "next_player E ?w1 s = ?np" by (simp add: next_of_def)
  show ?thesis
    unfolding end_turn_core_def
    apply (simp only: with_state_Some [OF s] c and_then_def sum.case Let_def with_state_Some [OF s1] np sc
        with_state_Some [OF s3])
    using f s7 n7
    apply (simp add: at_is_in_pregame_def [symmetric] with_state_def split_beta store_sel)
    done
qed


lemma at_is_in_pregame_sel:
  "games (at_is_in_pregame E g p s w) g =
     (games w g)\<lparr>catanlog := log_call (Log_ends_turn p) (catanlog (games w g)),
                 cur_player := Some (next_of E g p s w),
                 cur_turn := cur_turn (games w g) + 1,
                 dev_card_state := Some DevCardNotPlayedState\<rparr>"
  "states (at_is_in_pregame E g p s w) = states w"
  "boards (at_is_in_pregame E g p s w) = boards w"
  "obs_sets (at_is_in_pregame E g p s w) = obs_sets w"
  "undo_mgrs (at_is_in_pregame E g p s w) = undo_mgrs w"
  "next_addr (at_is_in_pregame E g p s w) = next_addr w"
  "filter is_gate_event (drop (length (trace w)) (trace (at_is_in_pregame E g p s w))) =
     [NextPlayerCalled (next_of E g p s w), CanEndGameCalled False]"
  "take (length (trace w)) (trace (at_is_in_pregame E g p s w)) = trace w"
  by (simp_all add: at_is_in_pregame_def at_can_end_game_def store_sel)

lemma trace_extends:
  assumes "take (length (trace w)) (trace w1) = trace w" and "trace w2 = trace w1 @ es"
  shows "trace w2 = trace w @ (drop (length (trace w)) (trace w1) @ es)"
proof -
  have "trace w1 = take (length (trace w)) (trace w1) @ drop (length (trace w)) (trace w1)"
    by simp
  with assms show ?thesis by simp
qed

lemma end_turn_core_ends_game:
  assumes s: "state (games w g) = Some s"
    and c: "get_cur_player g w = Inr p"
    and n: "Player_init a b c = Inr (next_of E g p s w)"
    and f: "\<not> can_end_game E (at_can_end_game E g p s w) s"
    and pre: "\<not> is_in_pregame E (at_is_in_pregame E g p s w) s"
    and e: "player_to_pieces (boards w (board (games w g))) = []"
  shows "\<exists>w' es. end_turn_core E g w = Inr w'
     \<and> trace w' = trace w @ es
     \<and> filter is_gate_event es
          = [NextPlayerCalled (next_of E g p s w), CanEndGameCalled False, EndCalled g]
     \<and> state_kind_of g w' = Some NotInGame
     \<and> cur_player (games w' g) = Some (next_of E g p s w)
     \<and> cur_turn (games w' g) = cur_turn (games w g) + 1
     \<and> (allocated g w \<longrightarrow> allocated g w')"
proof -
  let ?w7 = "at_is_in_pregame E g p s w"
  have u: "end_turn_core E g w = Game_end E g ?w7"
    using end_turn_core_unfold [OF s c n f] pre by simp
  have c7: "get_cur_player g ?w7 = Inr (next_of E g p s w)"
    by (rule get_cur_player_built [OF _ n]) (simp add: at_is_in_pregame_sel)
  have e7: "player_to_pieces (boards ?w7 (board (games ?w7 g))) = []"
    using e by (simp add: at_is_in_pregame_sel)
  from Game_end_result [OF c7 e7, of E] obtain w' es where
    r: "Game_end E g ?w7 = Inr w'" "trace w' = trace ?w7 @ es"
      "filter is_gate_event es = [EndCalled g]" "state_kind_of g w' = Some NotInGame"
      "cur_player (games w' g) = cur_player (games ?w7 g)"
      "cur_turn (games w' g) = cur_turn (games ?w7 g)"
      "allocated g ?w7 \<longrightarrow> allocated g w'"
    by blast
  have t: "trace w' = trace w @ (drop (length (trace w)) (trace ?w7) @ es)"
    by (rule trace_extends [OF at_is_in_pregame_sel(8) r(2)])
  have al: "allocated g w \<longrightarrow> allocated g ?w7"
    using s by (simp add: allocated_def at_is_in_pregame_sel)
  show ?thesis
    using u r t al by (simp add: at_is_in_pregame_sel)
qed

lemma end_turn_core_pregame:
  assumes s: "state (games w g) = Some s"
    and c: "get_cur_player g w = Inr p"
    and n: "Player_init a b c = Inr (next_of E g p s w)"
    and f: "\<not> can_end_game E (at_can_end_game E g p s w) s"
    and pre: "is_in_pregame E (at_is_in_pregame E g p s w) s"
  shows "\<exists>w' es. end_turn_core E g w = Inr w'
     \<and> trace w' = trace w @ es
     \<and> filter is_gate_event es = [NextPlayerCalled (next_of E g p s w), CanEndGameCalled False]
     \<and> state_kind_of g w' = Some (PreGamePlacingPiece Settlement)
     \<and> cur_player (games w' g) = Some (next_of E g p s w)
     \<and> cur_turn (games w' g) = cur_turn (games w g) + 1
     \<and> (allocated g w \<longrightarrow> allocated g w')
     \<and> board (games w' g) = board (games w g)
     \<and> boards w' (board (games w g)) = Board_lock (boards w (board (games w g)))"
proof -
  let ?w7 = "at_is_in_pregame E g p s w"
  let ?w' = "set_state g (next_addr w) (snd (GameState_new (PreGamePlacingPiece Settlement) g ?w7))"
  have u: "end_turn_core E g w = Inr ?w'"
    using end_turn_core_unfold [OF s c n f] pre by simp
  have t2: "trace ?w' = trace ?w7 @ drop (length (trace ?w7)) (trace ?w')"
    by (simp add: store_sel)
  have t: "trace ?w' = trace w @ (drop (length (trace w)) (trace ?w7) @ drop (length (trace ?w7)) (trace ?w'))"
    by (rule trace_extends [OF at_is_in_pregame_sel(8) t2])
  have g: "filter is_gate_event (drop (length (trace ?w7)) (trace ?w')) = []"
    by (simp add: store_sel)
  have k: "state_kind_of g ?w' = Some (PreGamePlacingPiece Settlement)"
    by (simp add: state_kind_of_def store_sel at_is_in_pregame_sel)
  have al: "allocated g w \<longrightarrow> allocated g ?w'"
    by (simp add: allocated_def store_sel at_is_in_pregame_sel)
  have fe: "filter is_gate_event
              (drop (length (trace w)) (trace ?w7) @ drop (length (trace ?w7)) (trace ?w'))
            = [NextPlayerCalled (next_of E g p s w), CanEndGameCalled False]"
    using g by (simp add: at_is_in_pregame_sel(7))
  have cp: "cur_player (games ?w' g) = Some (next_of E g p s w)"
    by (simp add: store_sel at_is_in_pregame_sel)
  have ct: "cur_turn (games ?w' g) = cur_turn (games w g) + 1"
    by (simp add: store_sel at_is_in_pregame_sel)
  have bd: "board (games ?w' g) = board (games w g)"
    "boards ?w' (board (games w g)) = Board_lock (boards w (board (games w g)))"
    by (simp_all add: store_sel at_is_in_pregame_sel is_in_game_def)
  show ?thesis
    using u t fe k cp ct al bd by blast
qed

lemma end_turn_agents_other:
  assumes "cur_player (games w g) = Some q"
    and "\<not> contains ''agent1'' (name q)" and "\<not> contains ''agent2'' (name q)"
  shows "end_turn_agents E g w = Inr w"
  using assms by (simp add: end_turn_agents_def)

lemma end_turn_wrapped:
  assumes a: "allocated g w"
    and b: "end_turn_core E g (snd (Game_copy g w)) = Inr w2"
    and al: "allocated g w2"
    and q: "cur_player (games w2 g) = Some q"
    and na: "\<not> contains ''agent1'' (name q)" "\<not> contains ''agent2'' (name q)"
  shows "\<exists>w3. end_turn E g w = Inr w3
      \<and> games w3 g = games w2 g
      \<and> states w3 = states w2
      \<and> boards w3 (board (games w2 g)) = boards w2 (board (games w2 g))
      \<and> allocated g w3
      \<and> trace w3 = trace w2 @ [Notified g (obs_sets w2 (observers (games w2 g))) (games w2 g)]"
proof -
  have "end_turn_body E g (snd (Game_copy g w)) = Inr w2"
    using b end_turn_agents_other [OF q na, of E] by (simp add: end_turn_body_def and_then_def)
  from undoable_result [of g w "end_turn_body E" w2, OF a this al]
  show ?thesis by (auto simp add: end_turn_def)
qed

lemma Game_copy_trace: "trace (snd (Game_copy g w)) = trace w"
  by (simp add: Game_copy_def Game_deepcopy_def Let_def)

lemma Game_copy_states: "states (snd (Game_copy g w)) = states w"
  by (simp add: Game_copy_def Game_deepcopy_def Let_def)

lemma state_kind_of_SomeD:
  "state_kind_of g w = Some k \<Longrightarrow> \<exists>s. state (games w g) = Some s \<and> kind (states w s) = k"
  by (auto simp add: state_kind_of_def)

lemma w0_game_g0:
  "games w0 g0 = \<lparr>observers = 1, undo_manager = 2, options = [(''pregame'', Some ''on'')],
       players = [], board = 3, robber = \<lparr>ptype = Robber, owner = None\<rparr>,
       catanlog = CatanLog [], state = Some 4, dev_card_state = Some DevCardNotPlayedState,
       cur_player = None, last_roll = None, last_player_to_roll = None, cur_turn = 0,
       robber_tile = None, terrain_to_tiles = [], player_to_resources = []\<rparr>"
  using w0_game by (simp add: g0_eq)

lemma next_after_ann: "next_after ann [ann, bob] = bob"
  by (simp add: next_after_def ann_def bob_def)

text \<open>
  C2 fails on the code.  On the example Game with players ann and bob, ann to move, in state
  DuringTurnAfterRoll, and with a \<^verbatim>\<open>can_end_game()\<close> that returns \<^verbatim>\<open>False\<close>, \<^verbatim>\<open>end_turn\<close> calls
  \<^verbatim>\<open>next_player()\<close>, then \<^verbatim>\<open>can_end_game()\<close> once, and then runs \<^verbatim>\<open>Game.end\<close> all the same
  (line 532, the branch taken when the state is not a pregame state): the game ends in
  NotInGame although \<^verbatim>\<open>can_end_game()\<close> said no.
\<close>

theorem end_turn_ends_game_without_signal:
  "case set_players g0 [ann, bob] w0 of
     Inl e \<Rightarrow> False
   | Inr wa \<Rightarrow>
       (case roll g0 4 wa of
          Inl e \<Rightarrow> False
        | Inr wb \<Rightarrow>
            state_kind_of g0 wb = Some DuringTurnAfterRoll
            \<and> (case end_turn demo_env g0 wb of
                 Inl e \<Rightarrow> False
               | Inr wc \<Rightarrow>
                   gate_events wb wc
                     = [NextPlayerCalled bob, CanEndGameCalled False, EndCalled g0]
                   \<and> state_kind_of g0 wc = Some NotInGame
                   \<and> cur_player (games wc g0) = Some bob))"
proof -
  define wa where "wa = notify_observers g0 (upd_game g0 (\<lambda>x. x\<lparr>cur_player := Some ann\<rparr>)
                  (upd_game g0 (\<lambda>x. x\<lparr>players := [ann, bob]\<rparr>) w0))"
  have sa: "set_players g0 [ann, bob] w0 = Inr wa"
    unfolding wa_def by (rule set_players_cons [OF built_ann])
  have ga: "games wa g0 = (games w0 g0)\<lparr>players := [ann, bob], cur_player := Some ann\<rparr>"
    "boards wa = boards w0" "next_addr wa = next_addr w0"
    by (simp_all add: wa_def store_sel)
  have aa: "allocated g0 wa"
    using w0_allocated by (simp add: allocated_def ga)
  have ca: "get_cur_player g0 wa = Inr ann"
    by (rule get_cur_player_built [OF _ built_ann]) (simp add: ga)
  from roll_result [OF aa ca, of 4] obtain wb where
    wb: "roll g0 4 wa = Inr wb" "state_kind_of g0 wb = Some DuringTurnAfterRoll"
      "cur_player (games wb g0) = cur_player (games wa g0)" "allocated g0 wb"
      "sgame (states wb (the (state (games wb g0)))) = g0"
      "players (games wb g0) = players (games wa g0)"
      "board (games wb g0) = board (games wa g0)"
      "boards wb (board (games wa g0)) = Board_lock (boards wa (board (games wa g0)))"
    by auto
  from state_kind_of_SomeD [OF wb(2)] obtain s where
    s: "state (games wb g0) = Some s" "kind (states wb s) = DuringTurnAfterRoll"
    by blast
  let ?w1 = "snd (Game_copy g0 wb)"
  have k1: "games ?w1 g0 = games wb g0"
    "boards ?w1 (board (games wb g0)) = boards wb (board (games wb g0))"
    by (rule Game_copy_keeps(1,2) [OF wb(4)])+
  have st1: "states ?w1 = states wb" by (rule Game_copy_states)
  have a1: "allocated g0 ?w1" by (rule Game_copy_allocated [OF wb(4)])
  have s1: "state (games ?w1 g0) = Some s" using s k1 by simp
  have c1: "get_cur_player g0 ?w1 = Inr ann"
    by (rule get_cur_player_built [OF _ built_ann]) (simp add: k1 wb(3) ga)
  have sg: "sgame (states wb s) = g0" using wb(5) s by simp
  have nx: "next_of demo_env g0 ann s ?w1 = bob"
    using sg by (simp add: next_of_def demo_env_def demo_next_player_def store_sel st1 k1 wb(3) wb(6)
        ga next_after_ann)
  have n: "Player_init 2 ''Bob'' ''Blue'' = Inr (next_of demo_env g0 ann s ?w1)"
    using built_bob nx by simp
  have f: "\<not> can_end_game demo_env (at_can_end_game demo_env g0 ann s ?w1) s"
    by (simp add: demo_env_def)
  have pre: "\<not> is_in_pregame demo_env (at_is_in_pregame demo_env g0 ann s ?w1) s"
    using s by (simp add: demo_env_def demo_is_in_pregame_def at_is_in_pregame_sel st1)
  have e: "player_to_pieces (boards ?w1 (board (games ?w1 g0))) = []"
    using k1 wb(7) wb(8) by (simp add: ga w0_game_g0 w0_board empty_board_def Board_lock_def)
  from end_turn_core_ends_game [OF s1 c1 n f pre e] a1 nx obtain w2 es where
    w2: "end_turn_core demo_env g0 ?w1 = Inr w2" "trace w2 = trace ?w1 @ es"
      "filter is_gate_event es = [NextPlayerCalled bob, CanEndGameCalled False, EndCalled g0]"
      "state_kind_of g0 w2 = Some NotInGame" "cur_player (games w2 g0) = Some bob"
      "allocated g0 w2"
    by auto
  have nb: "\<not> contains ''agent1'' (name bob)" "\<not> contains ''agent2'' (name bob)"
    by (simp_all add: bob_def)
  from end_turn_wrapped [OF wb(4) w2(1) w2(6) w2(5) nb] obtain wc where
    wc: "end_turn demo_env g0 wb = Inr wc" "games wc g0 = games w2 g0" "states wc = states w2"
      "trace wc = trace w2 @ [Notified g0 (obs_sets w2 (observers (games w2 g0))) (games w2 g0)]"
    by blast
  have "gate_events wb wc = [NextPlayerCalled bob, CanEndGameCalled False, EndCalled g0]"
    using wc(4) w2(2,3) by (simp add: gate_events_def new_events_def Game_copy_trace)
  moreover have "state_kind_of g0 wc = Some NotInGame"
    using w2(4) wc(2,3) by (simp add: state_kind_of_def)
  ultimately show ?thesis
    using sa wb(1,2) wc(1,2) w2(5) by simp
qed

section \<open>Starting a game and buying pieces\<close>

lemma start_body_result:
  assumes b: "Player_init a b c = Inr p"
    and o: "map_of (opts (boards w (board (games w g)))) ''players'' \<noteq> Some (Opt_debug E)"
    and pg: "dict_get (options (games w g)) ''pregame'' = Some ''on''"
    and e: "pieces (boards w (board (games w g))) = []"
  shows "\<exists>w'. start_body E g (p # ps) w = Inr w'
     \<and> state_kind_of g w' = Some (PreGamePlacingPiece Settlement)
     \<and> sgame (states w' (the (state (games w' g)))) = g
     \<and> cur_player (games w' g) = Some p
     \<and> players (games w' g) = p # ps
     \<and> cur_turn (games w' g) = 0
     \<and> board (games w' g) = board (games w g)
     \<and> boards w' (board (games w g)) = Board_lock (boards w (board (games w g)))
     \<and> (allocated g w \<longrightarrow> allocated g w')"
proof -
  let ?w1 = "reset g w"
  have r: "boards ?w1 = boards w" "board (games ?w1 g) = board (games w g)"
    "options (games ?w1 g) = options (games w g)" "next_addr ?w1 = Suc (next_addr w)"
    "state (games ?w1 g) = Some (next_addr w)"
    "observers (games ?w1 g) = observers (games w g)"
    "undo_manager (games ?w1 g) = undo_manager (games w g)"
    "cur_turn (games ?w1 g) = 0"
    by (simp_all add: reset_def Let_def split_beta store_sel)
  show ?thesis
    using o pg e
    by (simp add: start_body_def Let_def set_players_cons [OF b] and_then_def r store_sel
        split_beta state_kind_of_def allocated_def is_in_game_def Board_lock_def)
qed


lemma start_result:
  assumes al: "allocated g w"
    and b: "Player_init a b c = Inr p"
    and o: "map_of (opts (boards w (board (games w g)))) ''players'' \<noteq> Some (Opt_debug E)"
    and pg: "dict_get (options (games w g)) ''pregame'' = Some ''on''"
    and e: "pieces (boards w (board (games w g))) = []"
  shows "\<exists>w'. start E g (p # ps) w = Inr w'
     \<and> state_kind_of g w' = Some (PreGamePlacingPiece Settlement)
     \<and> sgame (states w' (the (state (games w' g)))) = g
     \<and> cur_player (games w' g) = Some p
     \<and> players (games w' g) = p # ps
     \<and> cur_turn (games w' g) = 0
     \<and> board (games w' g) = board (games w g)
     \<and> boards w' (board (games w g)) = Board_lock (boards w (board (games w g)))
     \<and> allocated g w'"
proof -
  let ?w1 = "snd (Game_copy g w)"
  have a1: "allocated g ?w1" by (rule Game_copy_allocated [OF al])
  have k: "games ?w1 g = games w g"
    "boards ?w1 (board (games w g)) = boards w (board (games w g))"
    by (rule Game_copy_keeps(1,2) [OF al])+
  have o1: "map_of (opts (boards ?w1 (board (games ?w1 g)))) ''players'' \<noteq> Some (Opt_debug E)"
    using o k by simp
  have pg1: "dict_get (options (games ?w1 g)) ''pregame'' = Some ''on''"
    using pg k by simp
  have e1: "pieces (boards ?w1 (board (games ?w1 g))) = []"
    using e k by simp
  from start_body_result [OF b o1 pg1 e1, of ps] a1 k obtain w2 where
    w2: "start_body E g (p # ps) ?w1 = Inr w2"
      "state_kind_of g w2 = Some (PreGamePlacingPiece Settlement)"
      "sgame (states w2 (the (state (games w2 g)))) = g"
      "cur_player (games w2 g) = Some p"
      "players (games w2 g) = p # ps"
      "cur_turn (games w2 g) = 0"
      "board (games w2 g) = board (games w g)"
      "boards w2 (board (games w g)) = Board_lock (boards w (board (games w g)))"
      "allocated g w2"
    by auto
  from undoable_result [of g w "\<lambda>self. start_body E self (p # ps)" w2, OF al w2(1) w2(9)]
  obtain w3 where w3: "undoable (\<lambda>self. start_body E self (p # ps)) g w = Inr w3"
      "games w3 g = games w2 g" "states w3 = states w2"
      "boards w3 (board (games w2 g)) = boards w2 (board (games w2 g))" "allocated g w3"
    by blast
  have "start E g (p # ps) w = Inr w3" using w3(1) by (simp add: start_def)
  moreover have "state_kind_of g w3 = state_kind_of g w2"
    using w3 by (simp add: state_kind_of_def)
  ultimately show ?thesis using w2 w3 by simp
qed

lemma buy_settlement_result:
  assumes c: "get_cur_player g w = Inr p"
    and s: "state (games w g) = Some s"
    and ps: "place_piece E (boards w (board (games w g))) \<lparr>ptype = Settlement, owner = Some p\<rparr> node = Inr bs"
    and ws: "ws = log_to g (Log_buys_settlement p (location E NODE node))
                    (upd_board (board (games w g)) (\<lambda>_. bs) w)"
  shows "\<exists>w'. buy_settlement E g node w = Inr w'
     \<and> state_kind_of g w'
         = Some (if is_in_pregame E ws s then PreGamePlacingPiece Road else DuringTurnAfterRoll)
     \<and> boards w' (board (games w' g)) = Board_lock bs
     \<and> cur_player (games w' g) = cur_player (games w g)
     \<and> cur_turn (games w' g) = cur_turn (games w g)
     \<and> gate_events w w' = []"
proof -
  let ?w1 = "upd_board (board (games w g)) (\<lambda>_. bs) w"
  have c1: "get_cur_player g ?w1 = Inr p"
    using c get_cur_player_cong [of ?w1 g w] by (simp add: store_sel)
  have s2: "state (games ws g) = Some s" using s by (simp add: ws store_sel)
  show ?thesis
    unfolding buy_settlement_def
    apply (simp only: c ps c1 and_then_def sum.case Let_def ws [symmetric] with_state_Some [OF s2])
    apply (simp add: split_beta store_sel state_kind_of_def is_in_game_def gate_events_def
        new_events_def ws)
    done
qed

lemma buy_road_result:
  assumes c: "get_cur_player g w = Inr p"
    and s: "state (games w g) = Some s"
    and pr: "place_piece E (boards w (board (games w g))) \<lparr>ptype = Road, owner = Some p\<rparr> edge = Inr br"
    and wr: "wr = log_to g (Log_buys_road p (location E EDGE edge))
                    (upd_board (board (games w g)) (\<lambda>_. br) w)"
  shows "(is_in_pregame E wr s \<longrightarrow> buy_road E g edge w = end_turn E g wr)
     \<and> (\<not> is_in_pregame E wr s \<longrightarrow>
          (\<exists>w'. buy_road E g edge w = Inr w'
             \<and> state_kind_of g w' = Some DuringTurnAfterRoll
             \<and> boards w' (board (games w' g)) = Board_lock br
             \<and> cur_player (games w' g) = cur_player (games w g)
             \<and> cur_turn (games w' g) = cur_turn (games w g)
             \<and> gate_events w w' = []))"
proof -
  let ?w1 = "upd_board (board (games w g)) (\<lambda>_. br) w"
  have c1: "get_cur_player g ?w1 = Inr p"
    using c get_cur_player_cong [of ?w1 g w] by (simp add: store_sel)
  have s2: "state (games wr g) = Some s" using s by (simp add: wr store_sel)
  show ?thesis
    unfolding buy_road_def
    apply (simp only: c pr c1 and_then_def sum.case Let_def wr [symmetric] with_state_Some [OF s2])
    apply (simp add: split_beta store_sel state_kind_of_def is_in_game_def gate_events_def
        new_events_def wr)
    done
qed

lemma Game_copy_next_addr: "next_addr (snd (Game_copy g w)) = Suc (Suc (Suc (next_addr w)))"
  by (simp add: Game_copy_def Game_deepcopy_def Let_def)

lemma end_turn_pregame_result:
  assumes al: "allocated g w"
    and s: "state (games w g) = Some s"
    and c: "get_cur_player g w = Inr p"
    and wt: "wt = snd (Game_copy g w)"
    and n: "Player_init a b c = Inr (next_of E g p s wt)"
    and f: "\<not> can_end_game E (at_can_end_game E g p s wt) s"
    and pre: "is_in_pregame E (at_is_in_pregame E g p s wt) s"
    and na: "\<not> contains ''agent1'' (name (next_of E g p s wt))"
            "\<not> contains ''agent2'' (name (next_of E g p s wt))"
  shows "\<exists>w'. end_turn E g w = Inr w'
     \<and> cur_player (games w' g) = Some (next_of E g p s wt)
     \<and> cur_turn (games w' g) = cur_turn (games w g) + 1
     \<and> state_kind_of g w' = Some (PreGamePlacingPiece Settlement)
     \<and> boards w' (board (games w' g)) = Board_lock (boards w (board (games w g)))
     \<and> gate_events w w' = [NextPlayerCalled (next_of E g p s wt), CanEndGameCalled False]
     \<and> allocated g w'"
proof -
  have a1: "allocated g wt" unfolding wt by (rule Game_copy_allocated [OF al])
  have k: "games wt g = games w g"
    "boards wt (board (games w g)) = boards w (board (games w g))"
    unfolding wt by (rule Game_copy_keeps(1,2) [OF al])+
  have s1: "state (games wt g) = Some s" using s k by simp
  have c1: "get_cur_player g wt = Inr p"
    using c get_cur_player_cong [of wt g w] k by simp
  from end_turn_core_pregame [OF s1 c1 n f pre] a1 k obtain w2 es where
    w2: "end_turn_core E g wt = Inr w2" "trace w2 = trace wt @ es"
      "filter is_gate_event es = [NextPlayerCalled (next_of E g p s wt), CanEndGameCalled False]"
      "state_kind_of g w2 = Some (PreGamePlacingPiece Settlement)"
      "cur_player (games w2 g) = Some (next_of E g p s wt)"
      "cur_turn (games w2 g) = cur_turn (games w g) + 1"
      "allocated g w2"
      "board (games w2 g) = board (games w g)"
      "boards w2 (board (games w g)) = Board_lock (boards w (board (games w g)))"
    by auto
  from end_turn_wrapped [OF al w2(1) [unfolded wt] w2(7) w2(5) na] obtain w3 where
    w3: "end_turn E g w = Inr w3" "games w3 g = games w2 g" "states w3 = states w2"
      "boards w3 (board (games w2 g)) = boards w2 (board (games w2 g))" "allocated g w3"
      "trace w3 = trace w2 @ [Notified g (obs_sets w2 (observers (games w2 g))) (games w2 g)]"
    by blast
  have ge: "gate_events w w3 = [NextPlayerCalled (next_of E g p s wt), CanEndGameCalled False]"
    using w3(6) w2(2,3) by (simp add: gate_events_def new_events_def wt Game_copy_trace)
  have sk: "state_kind_of g w3 = Some (PreGamePlacingPiece Settlement)"
    using w2(4) w3(2,3) by (simp add: state_kind_of_def)
  show ?thesis
    using w3(1,2,4,5) w2(5,6,8,9) ge sk by simp
qed

text \<open>
  C5.  \<^verbatim>\<open>buy_settlement\<close> places the settlement (the board is the one \<^verbatim>\<open>place_piece\<close>
  returned, locked) and installs PreGamePlacingPiece(road) when the state is in pregame and
  DuringTurnAfterRoll otherwise; it does not end the turn: current player and turn counter
  are unchanged and \<^verbatim>\<open>next_player()\<close> is not called.  \<^verbatim>\<open>buy_road\<close> places the road and, in
  pregame, ends the turn by itself: it is \<^verbatim>\<open>end_turn\<close> run on the store with the road placed
  and logged, which makes \<^verbatim>\<open>next_player()\<close> the current player and increments the turn
  counter (shown where \<^verbatim>\<open>can_end_game()\<close> is false, the pregame continues and the next player
  is not an automated agent); outside pregame it installs DuringTurnAfterRoll and leaves
  the current player alone.
\<close>

theorem pregame_buy_settlement_and_buy_road:
  assumes c: "get_cur_player g w = Inr p"
    and s: "state (games w g) = Some s"
    and ps: "place_piece E (boards w (board (games w g))) \<lparr>ptype = Settlement, owner = Some p\<rparr> node = Inr bs"
    and pr: "place_piece E (boards w (board (games w g))) \<lparr>ptype = Road, owner = Some p\<rparr> edge = Inr br"
    and ws: "ws = log_to g (Log_buys_settlement p (location E NODE node))
                    (upd_board (board (games w g)) (\<lambda>_. bs) w)"
    and wr: "wr = log_to g (Log_buys_road p (location E EDGE edge))
                    (upd_board (board (games w g)) (\<lambda>_. br) w)"
    and wt: "wt = snd (Game_copy g wr)"
  shows "(\<exists>w'. buy_settlement E g node w = Inr w'
          \<and> state_kind_of g w'
              = Some (if is_in_pregame E ws s then PreGamePlacingPiece Road else DuringTurnAfterRoll)
          \<and> boards w' (board (games w' g)) = Board_lock bs
          \<and> cur_player (games w' g) = cur_player (games w g)
          \<and> cur_turn (games w' g) = cur_turn (games w g)
          \<and> gate_events w w' = [])
     \<and> (is_in_pregame E wr s \<longrightarrow> buy_road E g edge w = end_turn E g wr)
     \<and> (\<not> is_in_pregame E wr s \<longrightarrow>
          (\<exists>w'. buy_road E g edge w = Inr w'
             \<and> state_kind_of g w' = Some DuringTurnAfterRoll
             \<and> boards w' (board (games w' g)) = Board_lock br
             \<and> cur_player (games w' g) = cur_player (games w g)
             \<and> cur_turn (games w' g) = cur_turn (games w g)
             \<and> gate_events w w' = []))
     \<and> (is_in_pregame E wr s \<and> allocated g w
          \<and> Player_init a b c = Inr (next_of E g p s wt)
          \<and> \<not> can_end_game E (at_can_end_game E g p s wt) s
          \<and> is_in_pregame E (at_is_in_pregame E g p s wt) s
          \<and> \<not> contains ''agent1'' (name (next_of E g p s wt))
          \<and> \<not> contains ''agent2'' (name (next_of E g p s wt)) \<longrightarrow>
          (\<exists>w'. buy_road E g edge w = Inr w'
             \<and> cur_player (games w' g) = Some (next_of E g p s wt)
             \<and> cur_turn (games w' g) = cur_turn (games w g) + 1
             \<and> state_kind_of g w' = Some (PreGamePlacingPiece Settlement)
             \<and> boards w' (board (games w' g)) = Board_lock br
             \<and> gate_events w w' = [NextPlayerCalled (next_of E g p s wt), CanEndGameCalled False]))"
proof -
  note A = buy_settlement_result [OF c s ps ws]
  note B = buy_road_result [OF c s pr wr]
  have C: "is_in_pregame E wr s \<and> allocated g w
          \<and> Player_init a b c = Inr (next_of E g p s wt)
          \<and> \<not> can_end_game E (at_can_end_game E g p s wt) s
          \<and> is_in_pregame E (at_is_in_pregame E g p s wt) s
          \<and> \<not> contains ''agent1'' (name (next_of E g p s wt))
          \<and> \<not> contains ''agent2'' (name (next_of E g p s wt)) \<longrightarrow>
          (\<exists>w'. buy_road E g edge w = Inr w'
             \<and> cur_player (games w' g) = Some (next_of E g p s wt)
             \<and> cur_turn (games w' g) = cur_turn (games w g) + 1
             \<and> state_kind_of g w' = Some (PreGamePlacingPiece Settlement)
             \<and> boards w' (board (games w' g)) = Board_lock br
             \<and> gate_events w w' = [NextPlayerCalled (next_of E g p s wt), CanEndGameCalled False])"
  proof
    assume h: "is_in_pregame E wr s \<and> allocated g w
          \<and> Player_init a b c = Inr (next_of E g p s wt)
          \<and> \<not> can_end_game E (at_can_end_game E g p s wt) s
          \<and> is_in_pregame E (at_is_in_pregame E g p s wt) s
          \<and> \<not> contains ''agent1'' (name (next_of E g p s wt))
          \<and> \<not> contains ''agent2'' (name (next_of E g p s wt))"
    have alr: "allocated g wr" using h by (simp add: wr allocated_def store_sel)
    have sr: "state (games wr g) = Some s" using s by (simp add: wr store_sel)
    have cr: "get_cur_player g wr = Inr p"
      using c get_cur_player_cong [of wr g w] by (simp add: wr store_sel)
    from h have n: "Player_init a b c = Inr (next_of E g p s wt)"
      and f: "\<not> can_end_game E (at_can_end_game E g p s wt) s"
      and pre: "is_in_pregame E (at_is_in_pregame E g p s wt) s"
      and na: "\<not> contains ''agent1'' (name (next_of E g p s wt))"
              "\<not> contains ''agent2'' (name (next_of E g p s wt))"
      by simp_all
    from end_turn_pregame_result [OF alr sr cr wt n f pre na] obtain w' where
      w': "end_turn E g wr = Inr w'"
        "cur_player (games w' g) = Some (next_of E g p s wt)"
        "cur_turn (games w' g) = cur_turn (games wr g) + 1"
        "state_kind_of g w' = Some (PreGamePlacingPiece Settlement)"
        "boards w' (board (games w' g)) = Board_lock (boards wr (board (games wr g)))"
        "gate_events wr w' = [NextPlayerCalled (next_of E g p s wt), CanEndGameCalled False]"
      by blast
    have b1: "buy_road E g edge w = Inr w'" using B h w'(1) by simp
    have b2: "cur_turn (games wr g) = cur_turn (games w g)" by (simp add: wr store_sel)
    have b3: "boards wr (board (games wr g)) = br" by (simp add: wr store_sel)
    have b4: "gate_events w w' = gate_events wr w'"
      by (simp add: gate_events_def new_events_def wr store_sel)
    show "\<exists>w'. buy_road E g edge w = Inr w'
             \<and> cur_player (games w' g) = Some (next_of E g p s wt)
             \<and> cur_turn (games w' g) = cur_turn (games w g) + 1
             \<and> state_kind_of g w' = Some (PreGamePlacingPiece Settlement)
             \<and> boards w' (board (games w' g)) = Board_lock br
             \<and> gate_events w w' = [NextPlayerCalled (next_of E g p s wt), CanEndGameCalled False]"
      using b1 b2 b3 b4 w' by simp
  qed
  from A B C show ?thesis by blast
qed

lemma demo_env_sel:
  "is_in_pregame demo_env = demo_is_in_pregame"
  "next_player demo_env = demo_next_player"
  "can_end_game demo_env = (\<lambda>w s. False)"
  "place_piece demo_env = demo_place_piece"
  "get_pieces demo_env = demo_get_pieces"
  "Board_restore demo_env = (\<lambda>b snap. snap)"
  "Board_restore_notifies demo_env = (\<lambda>b snap. Suc 0)"
  "Opt_debug demo_env = ''debug''"
  by (simp_all add: demo_env_def)

lemma w0_board_g0: "boards w0 (board (games w0 g0)) = empty_board"
  by (simp add: w0_game_g0 w0_board)

lemma w0_options: "dict_get (options (games w0 g0)) ''pregame'' = Some ''on''"
  by (simp add: w0_game_g0 dict_get_def)

lemma w0_not_debug:
  "map_of (opts (boards w0 (board (games w0 g0)))) ''players'' \<noteq> Some (Opt_debug demo_env)"
  by (simp add: w0_board_g0 empty_board_def)

theorem pregame_buy_settlement_and_buy_road_witness:
  "(case start demo_env g0 [ann, bob] w0 of
      Inl e \<Rightarrow> False
    | Inr wp \<Rightarrow>
        state_kind_of g0 wp = Some (PreGamePlacingPiece Settlement)
        \<and> cur_player (games wp g0) = Some ann
        \<and> (case buy_settlement demo_env g0 11 wp of
             Inl e \<Rightarrow> False
           | Inr w' \<Rightarrow>
               state_kind_of g0 w' = Some (PreGamePlacingPiece Road)
               \<and> cur_player (games w' g0) = Some ann
               \<and> cur_turn (games w' g0) = 0
               \<and> pieces (boards w' (board (games w' g0)))
                   = [((NODE, 11), \<lparr>ptype = Settlement, owner = Some ann\<rparr>)])
        \<and> (case buy_road demo_env g0 5 wp of
             Inl e \<Rightarrow> False
           | Inr w' \<Rightarrow>
               state_kind_of g0 w' = Some (PreGamePlacingPiece Settlement)
               \<and> cur_player (games w' g0) = Some bob
               \<and> cur_turn (games w' g0) = 1
               \<and> pieces (boards w' (board (games w' g0)))
                   = [((EDGE, 5), \<lparr>ptype = Road, owner = Some ann\<rparr>)]))
   \<and> (case buy_settlement demo_env g0 11 w0 of
         Inl e \<Rightarrow> False
       | Inr w' \<Rightarrow> state_kind_of g0 w' = Some DuringTurnAfterRoll \<and> cur_player (games w' g0) = None)
   \<and> (case buy_road demo_env g0 5 w0 of
         Inl e \<Rightarrow> False
       | Inr w' \<Rightarrow> state_kind_of g0 w' = Some DuringTurnAfterRoll \<and> cur_player (games w' g0) = None)"
proof -
  \<comment> \<open>outside pregame: the freshly built Game, in state NotInGame\<close>
  let ?nobody = "\<lparr>seat = 1, name = ''nobody'', color = ''nobody''\<rparr>"
  let ?bs0 = "empty_board\<lparr>pieces := [((NODE, 11), \<lparr>ptype = Settlement, owner = Some ?nobody\<rparr>)]\<rparr>"
  let ?br0 = "empty_board\<lparr>pieces := [((EDGE, 5), \<lparr>ptype = Road, owner = Some ?nobody\<rparr>)]\<rparr>"
  let ?ws0 = "log_to g0 (Log_buys_settlement ?nobody (location demo_env NODE 11))
                (upd_board (board (games w0 g0)) (\<lambda>_. ?bs0) w0)"
  let ?wr0 = "log_to g0 (Log_buys_road ?nobody (location demo_env EDGE 5))
                (upd_board (board (games w0 g0)) (\<lambda>_. ?br0) w0)"
  have s0: "state (games w0 g0) = Some 4" by (simp add: w0_game_g0)
  have ps0: "place_piece demo_env (boards w0 (board (games w0 g0)))
               \<lparr>ptype = Settlement, owner = Some ?nobody\<rparr> 11 = Inr ?bs0"
    by (simp add: w0_board_g0 demo_env_sel demo_place_piece_def empty_board_def)
  have pr0: "place_piece demo_env (boards w0 (board (games w0 g0)))
               \<lparr>ptype = Road, owner = Some ?nobody\<rparr> 5 = Inr ?br0"
    by (simp add: w0_board_g0 demo_env_sel demo_place_piece_def empty_board_def)
  have np0: "\<not> is_in_pregame demo_env ?ws0 4" "\<not> is_in_pregame demo_env ?wr0 4"
    by (simp_all add: demo_env_sel demo_is_in_pregame_def store_sel w0_state)
  have cp0: "cur_player (games w0 g0) = None" by (simp add: w0_game_g0)
  note T0 = pregame_buy_settlement_and_buy_road [OF w0_cur_player s0 ps0 pr0 refl refl refl]
  from T0 np0 cp0 have out1: "case buy_settlement demo_env g0 11 w0 of
         Inl e \<Rightarrow> False
       | Inr w' \<Rightarrow> state_kind_of g0 w' = Some DuringTurnAfterRoll \<and> cur_player (games w' g0) = None"
    by auto
  from T0 np0 cp0 have out2: "case buy_road demo_env g0 5 w0 of
         Inl e \<Rightarrow> False
       | Inr w' \<Rightarrow> state_kind_of g0 w' = Some DuringTurnAfterRoll \<and> cur_player (games w' g0) = None"
    by auto
  \<comment> \<open>in pregame: the Game after \<open>start\<close>\<close>
  from start_result [OF w0_allocated built_ann w0_not_debug w0_options, of "[bob]"]
  obtain wp where
    wp: "start demo_env g0 [ann, bob] w0 = Inr wp"
      "state_kind_of g0 wp = Some (PreGamePlacingPiece Settlement)"
      "sgame (states wp (the (state (games wp g0)))) = g0"
      "cur_player (games wp g0) = Some ann"
      "players (games wp g0) = [ann, bob]"
      "cur_turn (games wp g0) = 0"
      "board (games wp g0) = board (games w0 g0)"
      "boards wp (board (games w0 g0)) = Board_lock (boards w0 (board (games w0 g0)))"
      "allocated g0 wp"
    by (auto simp add: w0_board_g0 empty_board_def)
  from state_kind_of_SomeD [OF wp(2)] obtain s where
    s: "state (games wp g0) = Some s" "kind (states wp s) = PreGamePlacingPiece Settlement"
    by blast
  have sg: "sgame (states wp s) = g0" using wp(3) s by simp
  have cp: "get_cur_player g0 wp = Inr ann"
    by (rule get_cur_player_built [OF wp(4) built_ann])
  have bp: "boards wp (board (games wp g0)) = Board_lock empty_board"
    using wp(7,8) by (simp add: w0_board_g0)
  let ?bs = "Board_lock empty_board\<lparr>pieces := [((NODE, 11), \<lparr>ptype = Settlement, owner = Some ann\<rparr>)]\<rparr>"
  let ?br = "Board_lock empty_board\<lparr>pieces := [((EDGE, 5), \<lparr>ptype = Road, owner = Some ann\<rparr>)]\<rparr>"
  let ?ws = "log_to g0 (Log_buys_settlement ann (location demo_env NODE 11))
                (upd_board (board (games wp g0)) (\<lambda>_. ?bs) wp)"
  let ?wr = "log_to g0 (Log_buys_road ann (location demo_env EDGE 5))
                (upd_board (board (games wp g0)) (\<lambda>_. ?br) wp)"
  let ?wt = "snd (Game_copy g0 ?wr)"
  have ps: "place_piece demo_env (boards wp (board (games wp g0)))
               \<lparr>ptype = Settlement, owner = Some ann\<rparr> 11 = Inr ?bs"
    by (simp add: bp demo_env_sel demo_place_piece_def empty_board_def Board_lock_def)
  have pr: "place_piece demo_env (boards wp (board (games wp g0)))
               \<lparr>ptype = Road, owner = Some ann\<rparr> 5 = Inr ?br"
    by (simp add: bp demo_env_sel demo_place_piece_def empty_board_def Board_lock_def)
  have in1: "is_in_pregame demo_env ?ws s" "is_in_pregame demo_env ?wr s"
    using s by (simp_all add: demo_env_sel demo_is_in_pregame_def store_sel)
  have alr: "allocated g0 ?wr" using wp(9) by (simp add: allocated_def store_sel)
  have kt: "games ?wt g0 = games ?wr g0" by (rule Game_copy_keeps(1) [OF alr])
  have stt: "states ?wt = states wp" by (simp add: Game_copy_states store_sel)
  have nx: "next_of demo_env g0 ann s ?wt = bob"
    using sg wp(4,5)
    by (simp add: next_of_def demo_env_sel demo_next_player_def store_sel stt kt next_after_ann)
  have n: "Player_init 2 ''Bob'' ''Blue'' = Inr (next_of demo_env g0 ann s ?wt)"
    using built_bob nx by simp
  have f: "\<not> can_end_game demo_env (at_can_end_game demo_env g0 ann s ?wt) s"
    by (simp add: demo_env_sel)
  have pre: "is_in_pregame demo_env (at_is_in_pregame demo_env g0 ann s ?wt) s"
    using s by (simp add: demo_env_sel demo_is_in_pregame_def at_is_in_pregame_sel stt)
  have nb: "\<not> contains ''agent1'' (name (next_of demo_env g0 ann s ?wt))"
    "\<not> contains ''agent2'' (name (next_of demo_env g0 ann s ?wt))"
    by (simp_all add: nx bob_def)
  note T = pregame_buy_settlement_and_buy_road [OF cp s(1) ps pr refl refl refl,
      of 2 "''Bob''" "''Blue''"]
  from T obtain w1 where
    w1: "buy_settlement demo_env g0 11 wp = Inr w1"
      "state_kind_of g0 w1
         = Some (if is_in_pregame demo_env ?ws s then PreGamePlacingPiece Road else DuringTurnAfterRoll)"
      "boards w1 (board (games w1 g0)) = Board_lock ?bs"
      "cur_player (games w1 g0) = cur_player (games wp g0)"
      "cur_turn (games w1 g0) = cur_turn (games wp g0)"
    by blast
  have in2: "case buy_settlement demo_env g0 11 wp of
             Inl e \<Rightarrow> False
           | Inr w' \<Rightarrow>
               state_kind_of g0 w' = Some (PreGamePlacingPiece Road)
               \<and> cur_player (games w' g0) = Some ann
               \<and> cur_turn (games w' g0) = 0
               \<and> pieces (boards w' (board (games w' g0)))
                   = [((NODE, 11), \<lparr>ptype = Settlement, owner = Some ann\<rparr>)]"
    using w1 in1(1) wp(4,6) by (simp add: Board_lock_def)
  from T in1(2) wp(9) n f pre nb obtain w2 where
    w2: "buy_road demo_env g0 5 wp = Inr w2"
      "cur_player (games w2 g0) = Some (next_of demo_env g0 ann s ?wt)"
      "cur_turn (games w2 g0) = cur_turn (games wp g0) + 1"
      "state_kind_of g0 w2 = Some (PreGamePlacingPiece Settlement)"
      "boards w2 (board (games w2 g0)) = Board_lock ?br"
    by blast
  have in3: "case buy_road demo_env g0 5 wp of
             Inl e \<Rightarrow> False
           | Inr w' \<Rightarrow>
               state_kind_of g0 w' = Some (PreGamePlacingPiece Settlement)
               \<and> cur_player (games w' g0) = Some bob
               \<and> cur_turn (games w' g0) = 1
               \<and> pieces (boards w' (board (games w' g0)))
                   = [((EDGE, 5), \<lparr>ptype = Road, owner = Some ann\<rparr>)]"
    using w2 nx wp(6) by (simp add: Board_lock_def)
  from wp(1,2,4) in2 in3 out1 out2 show ?thesis by simp
qed

section \<open>Starting with no players\<close>

lemma get_debug_players_value: "get_debug_players = Inr debug_players"
  by code_simp

lemma built_abdur:
  "Player_init 1 ''abdur'' ''green'' = Inr \<lparr>seat = 1, name = ''abdur'', color = ''green''\<rparr>"
  by code_simp

lemma foldl_frame:
  assumes "\<And>v x. sel (F v x) = sel v"
  shows "sel (foldl F w xs) = sel w"
  using assms by (induction xs arbitrary: w) simp_all

lemma start_body_debug:
  assumes o: "map_of (opts (boards w (board (games w g)))) ''players'' = Some (Opt_debug E)"
  shows "\<exists>w'. start_body E g ps w = Inr w'
     \<and> players (games w' g) = debug_players
     \<and> cur_player (games w' g) = Some (hd debug_players)
     \<and> (allocated g w \<longrightarrow> allocated g w')"
proof -
  let ?w1 = "reset g w"
  let ?F = "\<lambda>v ((_, coord), pc).
              if ptype pc = Robber
              then upd_game g (\<lambda>x. x\<lparr>robber_tile := Some (tile_id_from_coord E coord)\<rparr>) v
              else v"
  have r: "boards ?w1 = boards w" "board (games ?w1 g) = board (games w g)"
    "options (games ?w1 g) = options (games w g)" "next_addr ?w1 = Suc (next_addr w)"
    "state (games ?w1 g) = Some (next_addr w)"
    "observers (games ?w1 g) = observers (games w g)"
    "undo_manager (games ?w1 g) = undo_manager (games w g)"
    by (simp_all add: reset_def Let_def split_beta store_sel)
  have fr: "(players (games (foldl ?F v xs) g), cur_player (games (foldl ?F v xs) g),
                observers (games (foldl ?F v xs) g), board (games (foldl ?F v xs) g),
                undo_manager (games (foldl ?F v xs) g), state (games (foldl ?F v xs) g),
                next_addr (foldl ?F v xs))
              = (players (games v g), cur_player (games v g), observers (games v g),
                 board (games v g), undo_manager (games v g), state (games v g), next_addr v)"
    for v xs
    by (rule foldl_frame [where sel = "\<lambda>v. (players (games v g), cur_player (games v g),
                observers (games v g), board (games v g),
                undo_manager (games v g), state (games v g), next_addr v)"])
       (simp add: split_beta store_sel)
  have fs: "players (games (foldl ?F v xs) g) = players (games v g)"
    "cur_player (games (foldl ?F v xs) g) = cur_player (games v g)"
    "observers (games (foldl ?F v xs) g) = observers (games v g)"
    "board (games (foldl ?F v xs) g) = board (games v g)"
    "undo_manager (games (foldl ?F v xs) g) = undo_manager (games v g)"
    "state (games (foldl ?F v xs) g) = state (games v g)"
    "next_addr (foldl ?F v xs) = next_addr v"
    for v xs
    using fr [of v xs] by simp_all
  show ?thesis
    using o
    by (simp add: start_body_def Let_def get_debug_players_value debug_players_def
        set_players_cons [OF built_abdur] and_then_def r store_sel fs
        split_beta allocated_def)
qed

lemma start_debug:
  assumes al: "allocated g w"
    and o: "map_of (opts (boards w (board (games w g)))) ''players'' = Some (Opt_debug E)"
  shows "\<exists>w'. start E g ps w = Inr w'
     \<and> players (games w' g) = debug_players
     \<and> cur_player (games w' g) = Some (hd debug_players)"
proof -
  let ?w1 = "snd (Game_copy g w)"
  have a1: "allocated g ?w1" by (rule Game_copy_allocated [OF al])
  have k: "games ?w1 g = games w g"
    "boards ?w1 (board (games w g)) = boards w (board (games w g))"
    by (rule Game_copy_keeps(1,2) [OF al])+
  have o1: "map_of (opts (boards ?w1 (board (games ?w1 g)))) ''players'' = Some (Opt_debug E)"
    using o k by simp
  from start_body_debug [OF o1, of ps] a1 obtain w2 where
    w2: "start_body E g ps ?w1 = Inr w2"
      "players (games w2 g) = debug_players"
      "cur_player (games w2 g) = Some (hd debug_players)"
      "allocated g w2"
    by auto
  from undoable_result [of g w "\<lambda>self. start_body E self ps" w2, OF al w2(1) w2(4)]
  obtain w3 where w3: "undoable (\<lambda>self. start_body E self ps) g w = Inr w3"
      "games w3 g = games w2 g"
    by blast
  have "start E g ps w = Inr w3" using w3(1) by (simp add: start_def)
  then show ?thesis using w2(2,3) w3(2) by simp
qed

lemma w_debug_facts:
  "allocated g0 w_debug"
  "map_of (opts (boards w_debug (board (games w_debug g0)))) ''players'' = Some (Opt_debug demo_env)"
proof -
  show "allocated g0 w_debug"
    using w0_allocated by (simp add: w_debug_def allocated_def store_sel)
  show "map_of (opts (boards w_debug (board (games w_debug g0)))) ''players''
          = Some (Opt_debug demo_env)"
    by (simp add: w_debug_def store_sel demo_env_sel)
qed

text \<open>
  C10 (as amended).  \<^verbatim>\<open>set_players\<close> requires a non-empty list.  For the empty list it
  fails with IndexError on \<^verbatim>\<open>self.players[0]\<close>; no sentinel current player is installed.
  For a list whose first element is a Player built by the constructor it succeeds, installs
  the list, makes the first element the current player, and then notifies the observers
  once: the Game they are shown already has both.  \<^verbatim>\<open>start\<close> does not require a non-empty
  list in every case: with the empty list it fails the same way when the board's option
  \<^verbatim>\<open>players\<close> is not \<^verbatim>\<open>Opt.debug\<close>; when it is, \<^verbatim>\<open>start\<close> succeeds for every list, the empty
  one too, and installs the four debug players in place of its argument.
\<close>

theorem set_players_nonempty_start_debug:
  "set_players g [] w = Inl IndexError
   \<and> (Player_init s n c = Inr p \<longrightarrow>
        (\<exists>w'. set_players g (p # ps) w = Inr w'
            \<and> players (games w' g) = p # ps
            \<and> cur_player (games w' g) = Some p
            \<and> trace w' = trace w @ [Notified g (obs_sets w (observers (games w g))) (games w' g)]))
   \<and> (allocated g w \<and> map_of (opts (boards w (board (games w g)))) ''players'' \<noteq> Some (Opt_debug E)
        \<longrightarrow> start E g [] w = Inl IndexError)
   \<and> (allocated g w \<and> map_of (opts (boards w (board (games w g)))) ''players'' = Some (Opt_debug E)
        \<longrightarrow> (\<exists>w'. start E g qs w = Inr w'
               \<and> players (games w' g) = debug_players
               \<and> cur_player (games w' g) = Some (hd debug_players)))"
proof -
  have b: "Player_init s n c = Inr p \<longrightarrow>
        (\<exists>w'. set_players g (p # ps) w = Inr w'
            \<and> players (games w' g) = p # ps
            \<and> cur_player (games w' g) = Some p
            \<and> trace w' = trace w @ [Notified g (obs_sets w (observers (games w g))) (games w' g)])"
  proof
    assume h: "Player_init s n c = Inr p"
    show "\<exists>w'. set_players g (p # ps) w = Inr w'
            \<and> players (games w' g) = p # ps
            \<and> cur_player (games w' g) = Some p
            \<and> trace w' = trace w @ [Notified g (obs_sets w (observers (games w g))) (games w' g)]"
      by (simp add: set_players_cons [OF h] notify_observers_def upd_game_def)
  qed
  have d: "allocated g w \<and> map_of (opts (boards w (board (games w g)))) ''players'' = Some (Opt_debug E)
        \<longrightarrow> (\<exists>w'. start E g qs w = Inr w'
               \<and> players (games w' g) = debug_players
               \<and> cur_player (games w' g) = Some (hd debug_players))"
    using start_debug [of g w E qs] by blast
  from set_players_empty b start_empty d show ?thesis by blast
qed

theorem set_players_nonempty_start_debug_witness:
  "Player_init 1 ''Ann'' ''Red'' = Inr ann
   \<and> allocated g0 w0
   \<and> map_of (opts (boards w0 (board (games w0 g0)))) ''players'' \<noteq> Some (Opt_debug demo_env)
   \<and> set_players g0 [] w0 = Inl IndexError
   \<and> (case set_players g0 [ann, bob] w0 of
        Inl e \<Rightarrow> False
      | Inr w' \<Rightarrow> players (games w' g0) = [ann, bob] \<and> cur_player (games w' g0) = Some ann
                 \<and> new_events w0 w' = [Notified g0 {} (games w' g0)])
   \<and> start demo_env g0 [] w0 = Inl IndexError
   \<and> allocated g0 w_debug
   \<and> map_of (opts (boards w_debug (board (games w_debug g0)))) ''players'' = Some (Opt_debug demo_env)
   \<and> (case start demo_env g0 [ann] w_debug of
        Inl e \<Rightarrow> False
      | Inr w' \<Rightarrow> players (games w' g0) = debug_players
                 \<and> cur_player (games w' g0) = Some \<lparr>seat = 1, name = ''abdur'', color = ''green''\<rparr>)"
proof -
  from set_players_nonempty_start_debug [of g0 w0 1 "''Ann''" "''Red''" ann "[bob]" demo_env]
    built_ann w0_allocated w0_not_debug
  obtain w' where w: "set_players g0 [ann, bob] w0 = Inr w'"
      "players (games w' g0) = [ann, bob]" "cur_player (games w' g0) = Some ann"
      "trace w' = trace w0 @ [Notified g0 (obs_sets w0 (observers (games w0 g0))) (games w' g0)]"
    and e: "set_players g0 [] w0 = Inl IndexError" "start demo_env g0 [] w0 = Inl IndexError"
    by blast
  have n: "new_events w0 w' = [Notified g0 {} (games w' g0)]"
    using w(4) by (simp add: new_events_def g0_eq w0_game w0_obs)
  from set_players_nonempty_start_debug
         [of g0 w_debug 1 "''Ann''" "''Red''" ann "[bob]" demo_env "[ann]"] w_debug_facts
  obtain v where v: "start demo_env g0 [ann] w_debug = Inr v"
      "players (games v g0) = debug_players"
      "cur_player (games v g0) = Some (hd debug_players)"
    by blast
  have h: "hd debug_players = \<lparr>seat = 1, name = ''abdur'', color = ''green''\<rparr>"
    by (simp add: debug_players_def)
  from w(1,2,3) n e built_ann w0_allocated w0_not_debug w_debug_facts v h
  show ?thesis by simp
qed

text \<open>
  C10 as stated fails for \<^verbatim>\<open>start\<close>: on the example Game with a board whose option
  \<^verbatim>\<open>players\<close> is \<^verbatim>\<open>Opt.debug\<close>, \<^verbatim>\<open>start([])\<close> does not fail; the debug players replace the
  empty argument before \<^verbatim>\<open>set_players\<close> is called, and the first of them becomes the current
  player.
\<close>

theorem start_empty_debug_counterexample:
  "allocated g0 w_debug
   \<and> (case start demo_env g0 [] w_debug of
        Inl e \<Rightarrow> False
      | Inr w' \<Rightarrow> players (games w' g0) = debug_players
                 \<and> players (games w' g0) \<noteq> []
                 \<and> cur_player (games w' g0) = Some \<lparr>seat = 1, name = ''abdur'', color = ''green''\<rparr>)"
proof -
  from start_debug [OF w_debug_facts, of "[]"] obtain v where
    v: "start demo_env g0 [] w_debug = Inr v"
      "players (games v g0) = debug_players"
      "cur_player (games v g0) = Some (hd debug_players)"
    by blast
  have h: "hd debug_players = \<lparr>seat = 1, name = ''abdur'', color = ''green''\<rparr>"
    "debug_players \<noteq> []"
    by (simp_all add: debug_players_def)
  from v h w_debug_facts(1) show ?thesis by simp
qed

section \<open>Whom the robber can steal from\<close>

lemma foldl_insert_owner:
  "foldl (\<lambda>acc node. if f node \<noteq> [] then insert (owner (hd (f node))) acc else acc) A ns
     = A \<union> {owner (hd (f n)) | n. n \<in> set ns \<and> f n \<noteq> []}"
proof (induction ns arbitrary: A)
  case Nil
  then show ?case by simp
next
  case (Cons x xs)
  show ?case
    by (simp add: Cons.IH) blast
qed

lemma owners_of_at_most_one:
  assumes "\<forall>n \<in> set ns. length (f n) \<le> Suc 0"
  shows "{owner (hd (f n)) | n. n \<in> set ns \<and> f n \<noteq> []}
           = {owner pc | pc n. n \<in> set ns \<and> pc \<in> set (f n)}"
proof (intro set_eqI iffI)
  fix x assume "x \<in> {owner (hd (f n)) | n. n \<in> set ns \<and> f n \<noteq> []}"
  then obtain n where n: "x = owner (hd (f n))" "n \<in> set ns" "f n \<noteq> []" by blast
  then have "hd (f n) \<in> set (f n)" by simp
  with n show "x \<in> {owner pc | pc n. n \<in> set ns \<and> pc \<in> set (f n)}" by blast
next
  fix x assume "x \<in> {owner pc | pc n. n \<in> set ns \<and> pc \<in> set (f n)}"
  then obtain pc n where n: "x = owner pc" "n \<in> set ns" "pc \<in> set (f n)" by blast
  from assms n(2) have "length (f n) \<le> Suc 0" by blast
  with n(3) have "f n = [pc]" by (cases "f n") auto
  with n show "x \<in> {owner (hd (f n)) | n. n \<in> set ns \<and> f n \<noteq> []}" by force
qed

lemma stealable_players_first_owners:
  assumes t: "robber_tile (games w g) = Some t"
    and c: "get_cur_player g w = Inr cur"
  shows "stealable_players E g w =
           Inr ({owner (hd (get_pieces E (boards w (board (games w g))) [Settlement, City] n)) | n.
                   n \<in> set (nodes_touching_tile E t)
                   \<and> get_pieces E (boards w (board (games w g))) [Settlement, City] n \<noteq> []}
                - {Some cur})"
  by (simp add: stealable_players_def t c and_then_def Let_def foldl_insert_owner)

text \<open>
  C7.  With the robber on tile \<open>t\<close>, \<^verbatim>\<open>stealable_players()\<close> returns exactly the owners of the
  settlements and cities that \<^verbatim>\<open>get_pieces\<close> finds on the nodes touching \<open>t\<close>, without the
  current player; a player with no such piece is not in the result.  This uses the board
  invariant that a node holds at most one piece.  With no robber tile the result is empty.
\<close>

theorem stealable_players_exact:
  "(robber_tile (games w g) = None \<longrightarrow> stealable_players E g w = Inr {})
   \<and> (robber_tile (games w g) = Some t \<and> get_cur_player g w = Inr cur
        \<and> (\<forall>n \<in> set (nodes_touching_tile E t).
              length (get_pieces E (boards w (board (games w g))) [Settlement, City] n) \<le> 1)
      \<longrightarrow> stealable_players E g w =
            Inr ({owner pc | pc n. n \<in> set (nodes_touching_tile E t)
                    \<and> pc \<in> set (get_pieces E (boards w (board (games w g))) [Settlement, City] n)}
                 - {Some cur}))"
proof (intro conjI impI)
  assume "robber_tile (games w g) = None"
  then show "stealable_players E g w = Inr {}" by (simp add: stealable_players_def)
next
  assume h: "robber_tile (games w g) = Some t \<and> get_cur_player g w = Inr cur
        \<and> (\<forall>n \<in> set (nodes_touching_tile E t).
              length (get_pieces E (boards w (board (games w g))) [Settlement, City] n) \<le> 1)"
  then have inv: "\<forall>n \<in> set (nodes_touching_tile E t).
      length (get_pieces E (boards w (board (games w g))) [Settlement, City] n) \<le> Suc 0"
    by simp
  from h have t: "robber_tile (games w g) = Some t" and c: "get_cur_player g w = Inr cur"
    by simp_all
  show "stealable_players E g w =
            Inr ({owner pc | pc n. n \<in> set (nodes_touching_tile E t)
                    \<and> pc \<in> set (get_pieces E (boards w (board (games w g))) [Settlement, City] n)}
                 - {Some cur})"
    unfolding stealable_players_first_owners [OF t c]
    using owners_of_at_most_one [OF inv] by simp
qed

lemma w_robber_board:
  "boards w_robber (board (games w_robber g0)) =
     empty_board\<lparr>pieces := [((NODE, 11), \<lparr>ptype = Settlement, owner = Some ann\<rparr>),
                              ((NODE, 12), \<lparr>ptype = City, owner = Some bob\<rparr>),
                              ((EDGE, 13), \<lparr>ptype = Road, owner = Some bob\<rparr>),
                              ((NODE, 21), \<lparr>ptype = Settlement, owner = Some cat\<rparr>)]\<rparr>"
  by (simp add: w_robber_def store_sel w0_board_g0)

lemma w_robber_nodes: "nodes_touching_tile demo_env 1 = [11, 12, 13, 14, 15, 16]"
  by (simp add: demo_env_def)

lemma w_robber_pieces:
  "demo_get_pieces (boards w_robber (board (games w_robber g0))) [Settlement, City] n =
     (if n = 11 then [\<lparr>ptype = Settlement, owner = Some ann\<rparr>]
      else if n = 12 then [\<lparr>ptype = City, owner = Some bob\<rparr>]
      else if n = 21 then [\<lparr>ptype = Settlement, owner = Some cat\<rparr>]
      else [])"
  by (simp add: w_robber_board demo_get_pieces_def)

lemma owners_as_union:
  "{owner pc | pc n. n \<in> set ns \<and> pc \<in> set (f n)} = (\<Union>n \<in> set ns. owner ` set (f n))"
  by blast

theorem stealable_players_exact_witness:
  "robber_tile (games w_robber g0) = Some 1
   \<and> get_cur_player g0 w_robber = Inr ann
   \<and> stealable_players demo_env g0 w_robber = Inr {Some bob}
   \<and> robber_tile (games w0 g0) = None
   \<and> stealable_players demo_env g0 w0 = Inr {}"
proof -
  have t: "robber_tile (games w_robber g0) = Some 1"
    by (simp add: w_robber_def store_sel)
  have c: "get_cur_player g0 w_robber = Inr ann"
    by (rule get_cur_player_built [OF _ built_ann]) (simp add: w_robber_def store_sel)
  have inv: "\<forall>n \<in> set (nodes_touching_tile demo_env 1).
      length (get_pieces demo_env (boards w_robber (board (games w_robber g0))) [Settlement, City] n) \<le> 1"
    by (simp add: demo_env_sel w_robber_pieces)
  have n0: "robber_tile (games w0 g0) = None" by (simp add: w0_game_g0)
  from stealable_players_exact [of w0 g0 demo_env] n0
  have e0: "stealable_players demo_env g0 w0 = Inr {}" by simp
  from stealable_players_exact [of w_robber g0 demo_env 1 ann] t c inv
  have "stealable_players demo_env g0 w_robber =
          Inr ({owner pc | pc n. n \<in> set (nodes_touching_tile demo_env 1)
                  \<and> pc \<in> set (get_pieces demo_env (boards w_robber (board (games w_robber g0)))
                                [Settlement, City] n)}
               - {Some ann})"
    by blast
  moreover have "{owner pc | pc n. n \<in> set (nodes_touching_tile demo_env 1)
                  \<and> pc \<in> set (get_pieces demo_env (boards w_robber (board (games w_robber g0)))
                                [Settlement, City] n)}
               - {Some ann} = {Some bob}"
    unfolding owners_as_union
    by (auto simp add: demo_env_sel w_robber_nodes w_robber_pieces ann_def bob_def)
  ultimately show ?thesis using t c n0 e0 by simp
qed

section \<open>Snapshots, restore and undo\<close>

lemma Game_copy_snapshot:
  assumes "allocated g w"
  shows "fst (Game_copy g w) \<noteq> g"
    and "state (games (snd (Game_copy g w)) (fst (Game_copy g w))) = state (games w g)"
    and "undo_manager (games (snd (Game_copy g w)) (fst (Game_copy g w))) = undo_manager (games w g)"
    and "observers (games (snd (Game_copy g w)) (fst (Game_copy g w))) \<noteq> observers (games w g)"
    and "obs_sets (snd (Game_copy g w)) (observers (games (snd (Game_copy g w)) (fst (Game_copy g w))))
           = obs_sets w (observers (games w g))"
    and "board (games (snd (Game_copy g w)) (fst (Game_copy g w))) \<noteq> board (games w g)"
    and "boards (snd (Game_copy g w)) (board (games (snd (Game_copy g w)) (fst (Game_copy g w))))
           = boards w (board (games w g))"
    and "games (snd (Game_copy g w)) (fst (Game_copy g w))
           = (games w g)\<lparr>observers := Suc (next_addr w), board := Suc (Suc (next_addr w))\<rparr>"
  using assms by (simp_all add: Game_copy_def Game_deepcopy_def Let_def allocated_def)

lemma roll_body_frame:
  assumes "get_cur_player g w = Inr p" and "roll_body g r w = Inr w'"
  shows "(\<forall>x. x \<noteq> g \<longrightarrow> games w' x = games w x)
     \<and> obs_sets w' = obs_sets w
     \<and> undo_mgrs w' = undo_mgrs w
     \<and> undo_manager (games w' g) = undo_manager (games w g)
     \<and> observers (games w' g) = observers (games w g)
     \<and> (\<forall>x. x \<noteq> board (games w g) \<longrightarrow> boards w' x = boards w x)
     \<and> (\<forall>x. x < next_addr w \<longrightarrow> states w' x = states w x)
     \<and> next_addr w \<le> next_addr w'"
proof -
  have "get_cur_player g (upd_game g (\<lambda>x. x\<lparr>last_roll := Some r\<rparr>) (log_to g (Log_roll p r) w))
          = get_cur_player g w"
    by (rule get_cur_player_cong) (simp add: store_sel)
  with assms have q:
    "get_cur_player g (upd_game g (\<lambda>x. x\<lparr>last_roll := Some r\<rparr>) (log_to g (Log_roll p r) w)) = Inr p"
    by simp
  show ?thesis
    using assms(2)
    by (auto simp add: roll_body_def assms(1) q and_then_def Let_def split_beta store_sel
        split: if_splits)
qed

lemma Game_copy_other:
  "x \<noteq> next_addr w \<Longrightarrow> games (snd (Game_copy g w)) x = games w x"
  "y \<noteq> Suc (next_addr w) \<Longrightarrow> obs_sets (snd (Game_copy g w)) y = obs_sets w y"
  "z \<noteq> Suc (Suc (next_addr w)) \<Longrightarrow> boards (snd (Game_copy g w)) z = boards w z"
  by (simp_all add: Game_copy_def Game_deepcopy_def Let_def)

lemma undoable_history:
  assumes a: "allocated g w"
    and b: "body g (snd (Game_copy g w)) = Inr w2"
    and c: "allocated g w2"
    and fg: "\<forall>x. x \<noteq> g \<longrightarrow> games w2 x = games (snd (Game_copy g w)) x"
    and fo: "obs_sets w2 = obs_sets (snd (Game_copy g w))"
    and fu: "undo_mgrs w2 = undo_mgrs (snd (Game_copy g w))"
    and um: "undo_manager (games w2 g) = undo_manager (games w g)"
    and mono: "next_addr (snd (Game_copy g w)) \<le> next_addr w2"
  shows "\<exists>w3 c. undoable body g w = Inr w3
      \<and> undo_stack (undo_mgrs w3 (undo_manager (games w3 g)))
           = c # undo_stack (undo_mgrs w (undo_manager (games w g)))
      \<and> before c \<noteq> g
      \<and> state (games w3 (before c)) = state (games w g)
      \<and> obs_sets w3 (observers (games w3 (before c))) = obs_sets w (observers (games w g))
      \<and> games w3 g = games w2 g
      \<and> obs_sets w3 (observers (games w2 g)) = obs_sets w2 (observers (games w2 g))
      \<and> observers (games w3 (before c)) \<noteq> observers (games w g)"
proof -
  from undoable_result [of g w body w2, OF a b c] obtain w3 where
    w3: "undoable body g w = Inr w3" "games w3 g = games w2 g"
      "obs_sets w3 (observers (games w2 g)) = obs_sets w2 (observers (games w2 g))"
      "undo_mgrs w3 (undo_manager (games w g)) =
           \<lparr>undo_stack = \<lparr>before = next_addr w, after = next_addr w2\<rparr>
                            # undo_stack (undo_mgrs w2 (undo_manager (games w g))),
            redo_stack = []\<rparr>"
    by blast
  let ?b = "next_addr w"
  let ?w1 = "snd (Game_copy g w)"
  have nb: "?b \<noteq> g" using a by (simp add: allocated_def)
  have fb: "fst (Game_copy g w) = ?b" by (rule Game_copy_fst)
  note sn = Game_copy_snapshot [OF a, unfolded fb]
  have u1: "undo_mgrs ?w1 = undo_mgrs w" by (rule Game_copy_keeps(5) [OF a])
  \<comment> \<open>what the second snapshot leaves in place\<close>
  obtain s2 v where c2: "Game_copy g w2 = (s2, v)" by (cases "Game_copy g w2")
  define um' where "um' = undo_manager (games w g)"
  have w3_eq: "w3 = notify_observers g (v\<lparr>undo_mgrs := (undo_mgrs v)
       (um' := \<lparr>undo_stack = \<lparr>before = fst (Game_copy g w), after = s2\<rparr> # undo_stack (undo_mgrs v um'),
               redo_stack = []\<rparr>)\<rparr>)"
    using w3(1) b c2
    by (simp add: undoable_def Game_do_def UndoManager_do_def and_then_def split_beta um'_def)
  have lt: "?b < next_addr w2" "Suc ?b < next_addr w2"
    using mono by (simp_all add: Game_copy_next_addr)
  have v: "v = snd (Game_copy g w2)" using c2 by simp
  have v_games: "games v ?b = games w2 ?b"
    unfolding v using lt by (simp add: Game_copy_other)
  have g3: "games w3 ?b = games ?w1 ?b"
    using v_games fg nb by (simp add: w3_eq store_sel)
  have v_obs: "obs_sets v (Suc ?b) = obs_sets w2 (Suc ?b)"
    unfolding v using lt by (simp add: Game_copy_other)
  have o3: "obs_sets w3 (Suc ?b) = obs_sets ?w1 (Suc ?b)"
    using v_obs fo by (simp add: w3_eq store_sel)
  have ob: "observers (games ?w1 ?b) = Suc ?b" using sn(8) by simp
  have "undo_stack (undo_mgrs w3 (undo_manager (games w3 g)))
           = \<lparr>before = ?b, after = next_addr w2\<rparr> # undo_stack (undo_mgrs w (undo_manager (games w g)))"
    using w3(2,4) um fu u1 by simp
  moreover have "state (games w3 ?b) = state (games w g)" using g3 sn(2) by simp
  moreover have "obs_sets w3 (observers (games w3 ?b)) = obs_sets w (observers (games w g))"
    using g3 o3 ob sn(5) by simp
  moreover have "observers (games w3 ?b) \<noteq> observers (games w g)"
    using g3 ob a by (simp add: allocated_def)
  ultimately show ?thesis using w3(1,2,3) nb
    by (intro exI [of _ w3] exI [of _ "\<lparr>before = ?b, after = next_addr w2\<rparr>"]) simp
qed


lemma roll_history:
  assumes a: "allocated g w" and c: "get_cur_player g w = Inr p"
  shows "\<exists>w' c. roll g r w = Inr w'
      \<and> undo_stack (undo_mgrs w' (undo_manager (games w' g)))
           = c # undo_stack (undo_mgrs w (undo_manager (games w g)))
      \<and> before c \<noteq> g
      \<and> state (games w' (before c)) = state (games w g)
      \<and> obs_sets w' (observers (games w' (before c))) = obs_sets w (observers (games w g))
      \<and> observers (games w' g) = observers (games w g)
      \<and> obs_sets w' (observers (games w g)) = obs_sets w (observers (games w g))
      \<and> state_kind_of g w' = Some (if r = 7 then MoveRobber else DuringTurnAfterRoll)
      \<and> observers (games w' (before c)) \<noteq> observers (games w g)"
proof -
  let ?w1 = "snd (Game_copy g w)"
  have a1: "allocated g ?w1" by (rule Game_copy_allocated [OF a])
  have k: "games ?w1 g = games w g"
    "obs_sets ?w1 (observers (games w g)) = obs_sets w (observers (games w g))"
    by (rule Game_copy_keeps(1,3) [OF a])+
  have c1: "get_cur_player g ?w1 = Inr p"
    using c get_cur_player_cong [of ?w1 g w] k by simp
  from roll_body_result [OF c1, of r] a1 obtain w2 where
    w2: "roll_body g r ?w1 = Inr w2" "allocated g w2"
      "state_kind_of g w2 = Some (if r = 7 then MoveRobber else DuringTurnAfterRoll)"
    by auto
  note fr = roll_body_frame [OF c1 w2(1)]
  from fr have fg: "\<forall>x. x \<noteq> g \<longrightarrow> games w2 x = games ?w1 x"
    and fo: "obs_sets w2 = obs_sets ?w1" and fu: "undo_mgrs w2 = undo_mgrs ?w1"
    and um: "undo_manager (games w2 g) = undo_manager (games w g)"
    and ob: "observers (games w2 g) = observers (games w g)"
    and mono: "next_addr ?w1 \<le> next_addr w2"
    using k by simp_all
  from undoable_history [of g w "\<lambda>self. roll_body self r" w2, OF a w2(1) w2(2) fg fo fu um mono]
  obtain w3 cm where w3: "undoable (\<lambda>self. roll_body self r) g w = Inr w3"
      "undo_stack (undo_mgrs w3 (undo_manager (games w3 g)))
           = cm # undo_stack (undo_mgrs w (undo_manager (games w g)))"
      "before cm \<noteq> g"
      "state (games w3 (before cm)) = state (games w g)"
      "obs_sets w3 (observers (games w3 (before cm))) = obs_sets w (observers (games w g))"
      "games w3 g = games w2 g"
      "obs_sets w3 (observers (games w2 g)) = obs_sets w2 (observers (games w2 g))"
      "observers (games w3 (before cm)) \<noteq> observers (games w g)"
    by blast
  from undoable_result [of g w "\<lambda>self. roll_body self r" w2, OF a w2(1) w2(2)] w3(1)
  have st: "states w3 = states w2" by auto
  have sk: "state_kind_of g w3 = state_kind_of g w2"
    using w3(6) st by (simp add: state_kind_of_def)
  have r: "roll g r w = Inr w3" using w3(1) by (simp add: roll_def)
  have o1: "observers (games w3 g) = observers (games w g)" using w3(6) ob by simp
  have o2: "obs_sets w3 (observers (games w g)) = obs_sets w (observers (games w g))"
    using w3(7) ob fo k by simp
  have sk': "state_kind_of g w3 = Some (if r = 7 then MoveRobber else DuringTurnAfterRoll)"
    using sk w2(3) by simp
  show ?thesis
    using r w3(2,3,4,5,8) o1 o2 sk' by (intro exI [of _ w3] exI [of _ cm]) simp
qed

lemma restore_result:
  assumes st: "state (games w snap) = Some s" and ne: "snap \<noteq> g"
  shows "\<exists>w'. restore E g snap w = Inr w'
     \<and> trace w' = trace w
          @ replicate (Board_restore_notifies E (boards w (board (games w g)))
                         (boards w (board (games w snap))))
              (Notified g (obs_sets w (observers (games w snap)))
                 ((games w g)\<lparr>observers := observers (games w snap),
                              options := options (games w snap),
                              players := players (games w snap)\<rparr>))
          @ [Notified g (obs_sets w (observers (games w snap))) (games w' g)]
     \<and> undo_manager (games w' g) = undo_manager (games w g)
     \<and> observers (games w' g) = observers (games w snap)
     \<and> obs_sets w' = obs_sets w
     \<and> undo_mgrs w' = undo_mgrs w
     \<and> state (games w' g) = Some s
     \<and> sgame (states w' s) = g
     \<and> board (games w' g) = board (games w g)
     \<and> players (games w' g) = players (games w snap)
     \<and> cur_player (games w' g) = cur_player (games w snap)
     \<and> cur_turn (games w' g) = cur_turn (games w snap)
     \<and> last_roll (games w' g) = last_roll (games w snap)
     \<and> dev_card_state (games w' g) = dev_card_state (games w snap)
     \<and> next_addr w' = next_addr w
     \<and> games w' snap = games w snap"
  using st ne
  by (simp add: restore_def Let_def store_sel)

lemma undo_result:
  assumes h: "undo_stack (undo_mgrs w (undo_manager (games w g))) = c # cs"
    and st: "state (games w (before c)) = Some s"
    and ne: "before c \<noteq> g"
  shows "\<exists>w'. undo E g w = Inr w'
     \<and> new_events w w'
         = replicate (Board_restore_notifies E (boards w (board (games w g)))
                        (boards w (board (games w (before c)))))
             (Notified g (obs_sets w (observers (games w (before c))))
                ((games w g)\<lparr>observers := observers (games w (before c)),
                             options := options (games w (before c)),
                             players := players (games w (before c))\<rparr>))
           @ [Notified g (obs_sets w (observers (games w (before c)))) (games w' g),
              Notified g (obs_sets w (observers (games w (before c)))) (games w' g)]
     \<and> undo_stack (undo_mgrs w' (undo_manager (games w' g))) = cs
     \<and> redo_stack (undo_mgrs w' (undo_manager (games w' g)))
         = c # redo_stack (undo_mgrs w (undo_manager (games w g)))
     \<and> obs_sets w' (observers (games w' g)) = obs_sets w (observers (games w (before c)))
     \<and> undo_manager (games w' g) = undo_manager (games w g)"
proof -
  let ?n = "Board_restore_notifies E (boards w (board (games w g)))
              (boards w (board (games w (before c))))"
  let ?mid = "(games w g)\<lparr>observers := observers (games w (before c)),
                          options := options (games w (before c)),
                          players := players (games w (before c))\<rparr>"
  from restore_result [OF st ne, of E] obtain w1 where
    w1: "restore E g (before c) w = Inr w1"
      "trace w1 = trace w
          @ replicate ?n (Notified g (obs_sets w (observers (games w (before c)))) ?mid)
          @ [Notified g (obs_sets w (observers (games w (before c)))) (games w1 g)]"
      "undo_manager (games w1 g) = undo_manager (games w g)"
      "observers (games w1 g) = observers (games w (before c))"
      "obs_sets w1 = obs_sets w" "undo_mgrs w1 = undo_mgrs w"
    by blast
  let ?um = "undo_manager (games w g)"
  let ?w2 = "w1\<lparr>undo_mgrs := (undo_mgrs w1)
               (?um := \<lparr>undo_stack = cs, redo_stack = c # redo_stack (undo_mgrs w1 ?um)\<rparr>)\<rparr>"
  have u: "undo E g w = Inr (notify_observers g ?w2)"
    by (simp add: undo_def UndoManager_undo_def h w1(1) and_then_def)
  show ?thesis
    unfolding u using w1(2-6) by (simp add: new_events_def notify_observers_def)
qed

text \<open>
  C3 (as amended).  An \<^verbatim>\<open>undo()\<close> on a Game whose undo history is non-empty succeeds and
  notifies observers at least twice, never once.  \<^verbatim>\<open>Game.restore\<close> first installs the
  observer set of the command's before-snapshot (line 128); then \<^verbatim>\<open>Board.restore\<close>
  (line 132) runs, and each notification it sends to the Game is passed on by
  \<^verbatim>\<open>Game.notify\<close> as a round showing the half-restored Game; \<^verbatim>\<open>Game.restore\<close> ends with a
  round (line 147), and \<^verbatim>\<open>Game.undo\<close> adds another (line 105), both showing the restored
  Game.  So the number of rounds is two plus the number of notifications of
  \<^verbatim>\<open>Board.restore\<close>, and every round reaches the members of the before-snapshot's observer
  set, not the observers registered with the Game when \<^verbatim>\<open>undo()\<close> was called.  The command
  moves from the undo history to the redo history.
\<close>

theorem undo_notification_rounds:
  assumes "undo_stack (undo_mgrs w (undo_manager (games w g))) = c # cs"
    and "state (games w (before c)) = Some s"
    and "before c \<noteq> g"
  shows "\<exists>w'. undo E g w = Inr w'
     \<and> length (notifications w w')
         = Board_restore_notifies E (boards w (board (games w g)))
             (boards w (board (games w (before c)))) + 2
     \<and> map notified_set (notifications w w')
         = replicate (length (notifications w w')) (registered (before c) w)
     \<and> new_events w w'
         = replicate (Board_restore_notifies E (boards w (board (games w g)))
                        (boards w (board (games w (before c)))))
             (Notified g (registered (before c) w)
                ((games w g)\<lparr>observers := observers (games w (before c)),
                             options := options (games w (before c)),
                             players := players (games w (before c))\<rparr>))
           @ [Notified g (registered (before c) w) (games w' g),
              Notified g (registered (before c) w) (games w' g)]
     \<and> undo_stack (undo_mgrs w' (undo_manager (games w' g))) = cs
     \<and> redo_stack (undo_mgrs w' (undo_manager (games w' g)))
         = c # redo_stack (undo_mgrs w (undo_manager (games w g)))"
proof -
  let ?n = "Board_restore_notifies E (boards w (board (games w g)))
              (boards w (board (games w (before c))))"
  let ?S = "registered (before c) w"
  let ?mid = "(games w g)\<lparr>observers := observers (games w (before c)),
                          options := options (games w (before c)),
                          players := players (games w (before c))\<rparr>"
  from undo_result [OF assms, of E] obtain w' where
    w': "undo E g w = Inr w'"
      "new_events w w'
         = replicate ?n (Notified g ?S ?mid) @ [Notified g ?S (games w' g), Notified g ?S (games w' g)]"
      "undo_stack (undo_mgrs w' (undo_manager (games w' g))) = cs"
      "redo_stack (undo_mgrs w' (undo_manager (games w' g)))
         = c # redo_stack (undo_mgrs w (undo_manager (games w g)))"
    unfolding registered_def by blast
  have n: "notifications w w'
         = replicate ?n (Notified g ?S ?mid) @ [Notified g ?S (games w' g), Notified g ?S (games w' g)]"
    by (simp add: notifications_def w'(2))
  have l: "length (notifications w w') = ?n + 2" by (simp add: n)
  have "map notified_set (notifications w w') = replicate ?n ?S @ replicate 2 ?S"
    by (simp add: n numeral_2_eq_2)
  then have m: "map notified_set (notifications w w') = replicate (length (notifications w w')) ?S"
    unfolding l by (simp only: replicate_add)
  from w' l m show ?thesis by blast
qed

lemma w7_facts:
  "allocated g0 (observers_add g0 7 w0)"
  "get_cur_player g0 (observers_add g0 7 w0) = Inr \<lparr>seat = 1, name = ''nobody'', color = ''nobody''\<rparr>"
  "obs_sets (observers_add g0 7 w0) (observers (games (observers_add g0 7 w0) g0)) = {7}"
  "state (games (observers_add g0 7 w0) g0) = Some 4"
  "undo_stack (undo_mgrs (observers_add g0 7 w0) (undo_manager (games (observers_add g0 7 w0) g0))) = []"
  "games (observers_add g0 7 w0) = games w0"
  "next_addr (observers_add g0 7 w0) = 5"
proof -
  have g: "games (observers_add g0 7 w0) = games w0"
    "next_addr (observers_add g0 7 w0) = next_addr w0"
    "undo_mgrs (observers_add g0 7 w0) = undo_mgrs w0"
    by (simp_all add: observers_add_def)
  show "allocated g0 (observers_add g0 7 w0)"
    using w0_allocated by (simp add: allocated_def g)
  show "get_cur_player g0 (observers_add g0 7 w0) = Inr \<lparr>seat = 1, name = ''nobody'', color = ''nobody''\<rparr>"
    using w0_cur_player get_cur_player_cong [of "observers_add g0 7 w0" g0 w0] by (simp add: g)
  show "obs_sets (observers_add g0 7 w0) (observers (games (observers_add g0 7 w0) g0)) = {7}"
    by (simp add: observers_add_def w0_game_g0 w0_obs)
  show "state (games (observers_add g0 7 w0) g0) = Some 4" by (simp add: g w0_game_g0)
  show "undo_stack (undo_mgrs (observers_add g0 7 w0) (undo_manager (games (observers_add g0 7 w0) g0))) = []"
    by (simp add: g w0_game_g0 w0_undo_mgr)
  show "games (observers_add g0 7 w0) = games w0" by (rule g)
  show "next_addr (observers_add g0 7 w0) = 5" by (simp add: g w0_next_addr)
qed

lemma observers_add_sel:
  "games (observers_add g obs w) = games w"
  "states (observers_add g obs w) = states w"
  "boards (observers_add g obs w) = boards w"
  "obs_sets (observers_add g obs w) =
     (obs_sets w)(observers (games w g) := insert obs (obs_sets w (observers (games w g))))"
  "undo_mgrs (observers_add g obs w) = undo_mgrs w"
  "next_addr (observers_add g obs w) = next_addr w"
  "trace (observers_add g obs w) = trace w"
  by (simp_all add: observers_add_def)

text \<open>
  C3 as stated fails.  Observer 7 is registered on the example Game and \<^verbatim>\<open>roll(4)\<close> leaves
  one command in the undo history; then observer 9 is registered as well.  The following
  \<^verbatim>\<open>undo()\<close>, on a board whose \<^verbatim>\<open>restore\<close> notifies once, makes three rounds of
  notifications, not one; each reaches observer 7 alone, so observer 9, registered when
  \<^verbatim>\<open>undo()\<close> is called, is not notified at all.
\<close>

theorem undo_notification_rounds_counterexample:
  "case roll g0 4 (observers_add g0 7 w0) of
     Inl e \<Rightarrow> False
   | Inr w1 \<Rightarrow>
       undo_stack (undo_mgrs (observers_add g0 9 w1)
                     (undo_manager (games (observers_add g0 9 w1) g0))) \<noteq> []
       \<and> registered g0 (observers_add g0 9 w1) = {7, 9}
       \<and> (case undo demo_env g0 (observers_add g0 9 w1) of
            Inl e \<Rightarrow> False
          | Inr w2 \<Rightarrow>
              map notified_set (notifications (observers_add g0 9 w1) w2) = [{7}, {7}, {7}]
              \<and> length (notifications (observers_add g0 9 w1) w2) \<noteq> 1)"
proof -
  from roll_history [OF w7_facts(1,2), of 4] obtain w1 c where
    w1: "roll g0 4 (observers_add g0 7 w0) = Inr w1"
      "undo_stack (undo_mgrs w1 (undo_manager (games w1 g0))) = [c]"
      "before c \<noteq> g0"
      "state (games w1 (before c)) = Some 4"
      "obs_sets w1 (observers (games w1 (before c))) = {7}"
      "observers (games w1 g0) = observers (games (observers_add g0 7 w0) g0)"
      "obs_sets w1 (observers (games (observers_add g0 7 w0) g0)) = {7}"
      "observers (games w1 (before c)) \<noteq> observers (games (observers_add g0 7 w0) g0)"
    using w7_facts(3,4,5) by auto
  let ?v = "observers_add g0 9 w1"
  have h: "undo_stack (undo_mgrs ?v (undo_manager (games ?v g0))) = [c]"
    using w1(2) by (simp add: observers_add_sel)
  have st: "state (games ?v (before c)) = Some 4"
    using w1(4) by (simp add: observers_add_sel)
  have r: "registered g0 ?v = {7, 9}"
    using w1(6,7) by (auto simp add: registered_def observers_add_sel)
  have o: "obs_sets ?v (observers (games ?v (before c))) = {7}"
    using w1(5,6,8) by (simp add: observers_add_sel)
  from undo_result [OF h st w1(3), of demo_env] obtain w2 where
    w2: "undo demo_env g0 ?v = Inr w2"
      "new_events ?v w2
         = replicate (Board_restore_notifies demo_env (boards ?v (board (games ?v g0)))
                        (boards ?v (board (games ?v (before c)))))
             (Notified g0 (obs_sets ?v (observers (games ?v (before c))))
                ((games ?v g0)\<lparr>observers := observers (games ?v (before c)),
                              options := options (games ?v (before c)),
                              players := players (games ?v (before c))\<rparr>))
           @ [Notified g0 (obs_sets ?v (observers (games ?v (before c)))) (games w2 g0),
              Notified g0 (obs_sets ?v (observers (games ?v (before c)))) (games w2 g0)]"
    by blast
  have k: "Board_restore_notifies demo_env (boards ?v (board (games ?v g0)))
             (boards ?v (board (games ?v (before c)))) = 1"
    by (simp add: demo_env_sel)
  have "map notified_set (notifications ?v w2) = [{7}, {7}, {7}]"
    unfolding notifications_def w2(2) k o by simp
  moreover have "length (notifications ?v w2) \<noteq> 1"
    unfolding notifications_def w2(2) k by simp
  ultimately show ?thesis using w1(1) h r w2(1) by simp
qed

theorem undo_notification_rounds_witness:
  "case roll g0 7 (observers_add g0 7 w0) of
     Inl e \<Rightarrow> False
   | Inr w1 \<Rightarrow>
       length (undo_stack (undo_mgrs w1 (undo_manager (games w1 g0)))) = 1
       \<and> (case undo demo_env g0 w1 of
            Inl e \<Rightarrow> False
          | Inr w2 \<Rightarrow> length (notifications w1 w2) = 3
                     \<and> map notified_set (notifications w1 w2) = [{7}, {7}, {7}]
                     \<and> undo_stack (undo_mgrs w2 (undo_manager (games w2 g0))) = []
                     \<and> redo_stack (undo_mgrs w2 (undo_manager (games w2 g0))) \<noteq> [])"
proof -
  from roll_history [OF w7_facts(1,2), of 7] obtain w1 c where
    w1: "roll g0 7 (observers_add g0 7 w0) = Inr w1"
      "undo_stack (undo_mgrs w1 (undo_manager (games w1 g0))) = [c]"
      "before c \<noteq> g0"
      "state (games w1 (before c)) = Some 4"
      "obs_sets w1 (observers (games w1 (before c))) = {7}"
    using w7_facts(3,4,5) by auto
  have k: "Board_restore_notifies demo_env (boards w1 (board (games w1 g0)))
             (boards w1 (board (games w1 (before c)))) = 1"
    by (simp add: demo_env_sel)
  from undo_notification_rounds [OF w1(2,4,3), of demo_env] obtain w2 where
    w2: "undo demo_env g0 w1 = Inr w2"
      "length (notifications w1 w2)
         = Board_restore_notifies demo_env (boards w1 (board (games w1 g0)))
             (boards w1 (board (games w1 (before c)))) + 2"
      "map notified_set (notifications w1 w2)
         = replicate (length (notifications w1 w2)) (registered (before c) w1)"
      "undo_stack (undo_mgrs w2 (undo_manager (games w2 g0))) = []"
      "redo_stack (undo_mgrs w2 (undo_manager (games w2 g0)))
         = c # redo_stack (undo_mgrs w1 (undo_manager (games w1 g0)))"
    by blast
  have l: "length (notifications w1 w2) = 3" using w2(2) k by simp
  have m: "map notified_set (notifications w1 w2) = [{7}, {7}, {7}]"
    using w2(3) w1(5) unfolding l by (simp add: registered_def numeral_3_eq_3)
  have "redo_stack (undo_mgrs w2 (undo_manager (games w2 g0))) \<noteq> []"
    using w2(5) by simp
  with w1(1,2) w2(1,4) l m show ?thesis by simp
qed

text \<open>
  C1 (as amended).  \<^verbatim>\<open>Game.copy\<close> builds a new Game object.  Its \<^verbatim>\<open>state\<close> and
  \<^verbatim>\<open>undo_manager\<close> are the very objects of the original (reference identity); its observer
  registry is a new set object with the same members; its board is a new Board object with
  equal contents; players, options, counters, current player, last roll, dev-card state,
  robber and log have equal values; the original is untouched.  \<^verbatim>\<open>Game.restore\<close> keeps the
  restoring Game's \<^verbatim>\<open>undo_manager\<close>, points the state's back-reference at the restoring
  Game, and makes the snapshot's observer set object the registry of the restoring Game.
  The observers registered after the restore are therefore the members that set has when
  the restore runs, whoever was registered with the Game before; and from then on the Game
  and the snapshot share the set, so that registering an observer with the Game also
  changes the membership of the snapshot.
\<close>

theorem snapshot_sharing_and_restore:
  assumes "allocated g w"
  shows "fst (Game_copy g w) \<noteq> g
     \<and> games (snd (Game_copy g w)) g = games w g
     \<and> state (games (snd (Game_copy g w)) (fst (Game_copy g w))) = state (games w g)
     \<and> undo_manager (games (snd (Game_copy g w)) (fst (Game_copy g w))) = undo_manager (games w g)
     \<and> observers (games (snd (Game_copy g w)) (fst (Game_copy g w))) \<noteq> observers (games w g)
     \<and> registered (fst (Game_copy g w)) (snd (Game_copy g w)) = registered g w
     \<and> registered g (snd (Game_copy g w)) = registered g w
     \<and> board (games (snd (Game_copy g w)) (fst (Game_copy g w))) \<noteq> board (games w g)
     \<and> boards (snd (Game_copy g w)) (board (games (snd (Game_copy g w)) (fst (Game_copy g w))))
           = boards w (board (games w g))
     \<and> boards (snd (Game_copy g w)) (board (games w g)) = boards w (board (games w g))
     \<and> games (snd (Game_copy g w)) (fst (Game_copy g w))
           = (games w g)\<lparr>observers := observers (games (snd (Game_copy g w)) (fst (Game_copy g w))),
                         board := board (games (snd (Game_copy g w)) (fst (Game_copy g w)))\<rparr>
     \<and> (state (games w snap) = Some s \<and> snap \<noteq> g \<longrightarrow>
          (\<exists>w'. restore E g snap w = Inr w'
             \<and> undo_manager (games w' g) = undo_manager (games w g)
             \<and> observers (games w' g) = observers (games w snap)
             \<and> registered g w' = registered snap w
             \<and> state (games w' g) = Some s
             \<and> sgame (states w' s) = g
             \<and> registered g (observers_add g obs w') = insert obs (registered snap w)
             \<and> registered snap (observers_add g obs w') = insert obs (registered snap w)))"
proof -
  note sn = Game_copy_snapshot [OF assms]
  note kp = Game_copy_keeps [OF assms]
  have r: "state (games w snap) = Some s \<and> snap \<noteq> g \<longrightarrow>
          (\<exists>w'. restore E g snap w = Inr w'
             \<and> undo_manager (games w' g) = undo_manager (games w g)
             \<and> observers (games w' g) = observers (games w snap)
             \<and> registered g w' = registered snap w
             \<and> state (games w' g) = Some s
             \<and> sgame (states w' s) = g
             \<and> registered g (observers_add g obs w') = insert obs (registered snap w)
             \<and> registered snap (observers_add g obs w') = insert obs (registered snap w))"
  proof
    assume h: "state (games w snap) = Some s \<and> snap \<noteq> g"
    then have st: "state (games w snap) = Some s" and ne: "snap \<noteq> g" by simp_all
    from restore_result [OF st ne, of E] obtain w' where
      w': "restore E g snap w = Inr w'"
        "undo_manager (games w' g) = undo_manager (games w g)"
        "observers (games w' g) = observers (games w snap)"
        "obs_sets w' = obs_sets w" "state (games w' g) = Some s" "sgame (states w' s) = g"
        "games w' snap = games w snap"
      by blast
    have a: "registered g w' = registered snap w" using w'(3,4) by (simp add: registered_def)
    have b: "registered g (observers_add g obs w') = insert obs (registered snap w)"
      using w'(3,4) by (simp add: registered_def observers_add_sel)
    have c: "registered snap (observers_add g obs w') = insert obs (registered snap w)"
      using w'(3,4,7) by (simp add: registered_def observers_add_sel)
    from w'(1,2,3,5,6) a b c
    show "\<exists>w'. restore E g snap w = Inr w'
             \<and> undo_manager (games w' g) = undo_manager (games w g)
             \<and> observers (games w' g) = observers (games w snap)
             \<and> registered g w' = registered snap w
             \<and> state (games w' g) = Some s
             \<and> sgame (states w' s) = g
             \<and> registered g (observers_add g obs w') = insert obs (registered snap w)
             \<and> registered snap (observers_add g obs w') = insert obs (registered snap w)"
      by blast
  qed
  have r1: "registered (fst (Game_copy g w)) (snd (Game_copy g w)) = registered g w"
    using sn(5) by (simp add: registered_def)
  have r2: "registered g (snd (Game_copy g w)) = registered g w"
    using kp(1,3) by (simp add: registered_def)
  have v: "games (snd (Game_copy g w)) (fst (Game_copy g w))
           = (games w g)\<lparr>observers := observers (games (snd (Game_copy g w)) (fst (Game_copy g w))),
                         board := board (games (snd (Game_copy g w)) (fst (Game_copy g w)))\<rparr>"
    using sn(8) by simp
  from sn(1,2,3,4,6,7) kp(1,2) r r1 r2 v show ?thesis by blast
qed

lemma w7_copy:
  "fst (Game_copy g0 (observers_add g0 7 w0)) = 5"
  "allocated g0 (snd (Game_copy g0 (observers_add g0 7 w0)))"
  "games (snd (Game_copy g0 (observers_add g0 7 w0))) g0 = games w0 g0"
  "state (games (snd (Game_copy g0 (observers_add g0 7 w0))) 5) = Some 4"
  "observers (games (snd (Game_copy g0 (observers_add g0 7 w0))) 5) \<noteq> observers (games w0 g0)"
  "registered 5 (snd (Game_copy g0 (observers_add g0 7 w0))) = {7}"
  "registered g0 (snd (Game_copy g0 (observers_add g0 7 w0))) = {7}"
  "g0 \<noteq> 5"
proof -
  let ?w7 = "observers_add g0 7 w0"
  have f: "fst (Game_copy g0 ?w7) = 5" by (simp add: Game_copy_fst w7_facts(7))
  note sn = Game_copy_snapshot [OF w7_facts(1), unfolded f]
  note kp = Game_copy_keeps [OF w7_facts(1)]
  show "fst (Game_copy g0 ?w7) = 5" by (rule f)
  show "allocated g0 (snd (Game_copy g0 ?w7))" by (rule Game_copy_allocated [OF w7_facts(1)])
  show "games (snd (Game_copy g0 ?w7)) g0 = games w0 g0" using kp(1) by (simp add: w7_facts(6))
  show "state (games (snd (Game_copy g0 ?w7)) 5) = Some 4" using sn(2) w7_facts(4) by simp
  show "observers (games (snd (Game_copy g0 ?w7)) 5) \<noteq> observers (games w0 g0)"
    using sn(4) by (simp add: w7_facts(6))
  show "registered 5 (snd (Game_copy g0 ?w7)) = {7}"
    using sn(5) w7_facts(3) by (simp add: registered_def)
  show "registered g0 (snd (Game_copy g0 ?w7)) = {7}"
    using kp(1,3) w7_facts(3) by (simp add: registered_def)
  show "g0 \<noteq> 5" using sn(1) by simp
qed

theorem snapshot_sharing_and_restore_witness:
  "allocated g0 (snd (Game_copy g0 (observers_add g0 7 w0)))
   \<and> state (games (snd (Game_copy g0 (observers_add g0 7 w0))) 5) = Some 4
   \<and> registered g0 (snd (Game_copy g0 (observers_add g0 7 w0))) = {7}
   \<and> fst (Game_copy g0 (snd (Game_copy g0 (observers_add g0 7 w0)))) \<noteq> g0
   \<and> registered (fst (Game_copy g0 (snd (Game_copy g0 (observers_add g0 7 w0)))))
        (snd (Game_copy g0 (snd (Game_copy g0 (observers_add g0 7 w0))))) = {7}
   \<and> (case restore demo_env g0 5 (snd (Game_copy g0 (observers_add g0 7 w0))) of
         Inl e \<Rightarrow> False
       | Inr w' \<Rightarrow> registered g0 w' = {7} \<and> state (games w' g0) = Some 4
                  \<and> sgame (states w' 4) = g0
                  \<and> undo_manager (games w' g0) = undo_manager (games w0 g0)
                  \<and> registered g0 (observers_add g0 9 w') = {9, 7}
                  \<and> registered 5 (observers_add g0 9 w') = {9, 7})"
proof -
  let ?W = "snd (Game_copy g0 (observers_add g0 7 w0))"
  note T = snapshot_sharing_and_restore [OF w7_copy(2), of 5 4 demo_env 9]
  have a: "fst (Game_copy g0 ?W) \<noteq> g0"
    by (rule T [THEN conjunct1])
  have b: "registered (fst (Game_copy g0 ?W)) (snd (Game_copy g0 ?W)) = registered g0 ?W"
    by (rule T [THEN conjunct2, THEN conjunct2, THEN conjunct2, THEN conjunct2, THEN conjunct2,
          THEN conjunct1])
  note R = T [THEN conjunct2, THEN conjunct2, THEN conjunct2, THEN conjunct2, THEN conjunct2,
      THEN conjunct2, THEN conjunct2, THEN conjunct2, THEN conjunct2, THEN conjunct2,
      THEN conjunct2]
  have h: "state (games ?W 5) = Some 4 \<and> 5 \<noteq> g0" using w7_copy(4,8) by simp
  from R h obtain w' where
    w': "restore demo_env g0 5 ?W = Inr w'"
      "undo_manager (games w' g0) = undo_manager (games ?W g0)"
      "registered g0 w' = registered 5 ?W"
      "state (games w' g0) = Some 4" "sgame (states w' 4) = g0"
      "registered g0 (observers_add g0 9 w') = insert 9 (registered 5 ?W)"
      "registered 5 (observers_add g0 9 w') = insert 9 (registered 5 ?W)"
    by blast
  show ?thesis
    using a b w' w7_copy(2,3,4,6,7) by simp
qed

text \<open>
  C1 as stated fails.  On the example Game with observer 7 registered, the snapshot shares
  the state object of the original (it is not deep-copied, so reference identity is not
  kept for the registry and the undo manager only), and its observer registry is a new set
  object, not the original's.  Observer 9, registered after the snapshot was taken and
  before it is restored, is no longer registered after the restore.
\<close>

theorem snapshot_sharing_counterexample:
  "state (games (snd (Game_copy g0 (observers_add g0 7 w0))) (fst (Game_copy g0 (observers_add g0 7 w0))))
     = state (games (snd (Game_copy g0 (observers_add g0 7 w0))) g0)
   \<and> state (games (snd (Game_copy g0 (observers_add g0 7 w0))) g0) \<noteq> None
   \<and> observers (games (snd (Game_copy g0 (observers_add g0 7 w0))) (fst (Game_copy g0 (observers_add g0 7 w0))))
       \<noteq> observers (games (snd (Game_copy g0 (observers_add g0 7 w0))) g0)
   \<and> registered g0 (observers_add g0 9 (snd (Game_copy g0 (observers_add g0 7 w0)))) = {7, 9}
   \<and> (case restore demo_env g0 (fst (Game_copy g0 (observers_add g0 7 w0)))
               (observers_add g0 9 (snd (Game_copy g0 (observers_add g0 7 w0)))) of
         Inl e \<Rightarrow> False
       | Inr w3 \<Rightarrow> registered g0 w3 = {7} \<and> 9 \<notin> registered g0 w3)"
proof -
  let ?W = "snd (Game_copy g0 (observers_add g0 7 w0))"
  let ?w2 = "observers_add g0 9 ?W"
  have g2: "games ?w2 = games ?W" by (simp add: observers_add_sel)
  have r2: "registered g0 ?w2 = {7, 9}"
    using w7_copy(7) by (auto simp add: registered_def observers_add_sel)
  have o2: "obs_sets ?w2 (observers (games ?w2 5)) = {7}"
    using w7_copy(5,6) by (simp add: registered_def observers_add_sel w7_copy(3))
  have st: "state (games ?w2 5) = Some 4" using w7_copy(4) by (simp add: g2)
  from restore_result [OF st, of g0 demo_env] w7_copy(8) obtain w3 where
    w3: "restore demo_env g0 5 ?w2 = Inr w3"
      "observers (games w3 g0) = observers (games ?w2 5)" "obs_sets w3 = obs_sets ?w2"
    by auto
  have r3: "registered g0 w3 = {7}" using w3(2,3) o2 by (simp add: registered_def)
  have s1: "state (games ?W 5) = state (games ?W g0)"
    using w7_copy(3,4) by (simp add: w0_game_g0)
  have s2: "state (games ?W g0) \<noteq> None" using w7_copy(3) by (simp add: w0_game_g0)
  have s3: "observers (games ?W 5) \<noteq> observers (games ?W g0)"
    using w7_copy(3,5) by simp
  show ?thesis
    using s1 s2 s3 r2 r3 w3(1) by (simp add: w7_copy(1))
qed

section \<open>What set_state and end_turn do get right\<close>

text \<open>
  \<^verbatim>\<open>Game.set_state\<close> re-derives the board lock from the state it installs: after the call the
  Game holds the given state object, and the board is locked exactly when that state is an
  in-game state (every variant except NotInGame).
\<close>

theorem set_state_locks_iff_in_game:
  "state (games (set_state g s w) g) = Some s
   \<and> state_kind_of g (set_state g s w) = Some (kind (states w s))
   \<and> board_locked g (set_state g s w) = (kind (states w s) \<noteq> NotInGame)
   \<and> board_locked g (set_state g (fst (GameState_new k g w)) (snd (GameState_new k g w)))
       = (k \<noteq> NotInGame)"
  using set_state_rederives_lock [of g s w]
    set_state_rederives_lock [of g "fst (GameState_new k g w)" "snd (GameState_new k g w)"]
  by (simp add: is_in_game_def store_sel)

text \<open>
  While the pregame continues and \<^verbatim>\<open>can_end_game()\<close> returns \<^verbatim>\<open>False\<close>, lines 512-533 of
  \<^verbatim>\<open>Game.end_turn\<close> call \<^verbatim>\<open>next_player()\<close> once, then \<^verbatim>\<open>can_end_game()\<close> once, and never
  \<^verbatim>\<open>Game.end\<close>; they make the returned player the current player, add one to the turn
  counter and install PreGamePlacingPiece(settlement).
\<close>

theorem end_turn_core_gate:
  assumes "state (games w g) = Some s"
    and "get_cur_player g w = Inr p"
    and "Player_init a b c = Inr (next_of E g p s w)"
    and "\<not> can_end_game E (at_can_end_game E g p s w) s"
    and "is_in_pregame E (at_is_in_pregame E g p s w) s"
  shows "\<exists>w'. end_turn_core E g w = Inr w'
     \<and> gate_events w w' = [NextPlayerCalled (next_of E g p s w), CanEndGameCalled False]
     \<and> state_kind_of g w' = Some (PreGamePlacingPiece Settlement)
     \<and> cur_player (games w' g) = Some (next_of E g p s w)
     \<and> cur_turn (games w' g) = cur_turn (games w g) + 1"
proof -
  from end_turn_core_pregame [OF assms] obtain w' es where
    w': "end_turn_core E g w = Inr w'" "trace w' = trace w @ es"
      "filter is_gate_event es = [NextPlayerCalled (next_of E g p s w), CanEndGameCalled False]"
      "state_kind_of g w' = Some (PreGamePlacingPiece Settlement)"
      "cur_player (games w' g) = Some (next_of E g p s w)"
      "cur_turn (games w' g) = cur_turn (games w g) + 1"
    by blast
  have "gate_events w w' = [NextPlayerCalled (next_of E g p s w), CanEndGameCalled False]"
    using w'(2,3) by (simp add: gate_events_def new_events_def)
  with w' show ?thesis by blast
qed

theorem end_turn_core_gate_witness:
  "case start demo_env g0 [ann, bob] w0 of
     Inl e \<Rightarrow> False
   | Inr wp \<Rightarrow>
       (case end_turn_core demo_env g0 wp of
          Inl e \<Rightarrow> False
        | Inr w' \<Rightarrow>
            gate_events wp w' = [NextPlayerCalled bob, CanEndGameCalled False]
            \<and> state_kind_of g0 w' = Some (PreGamePlacingPiece Settlement)
            \<and> cur_player (games w' g0) = Some bob
            \<and> cur_turn (games w' g0) = 1)"
proof -
  from start_result [OF w0_allocated built_ann w0_not_debug w0_options, of "[bob]"]
  obtain wp where
    wp: "start demo_env g0 [ann, bob] w0 = Inr wp"
      "state_kind_of g0 wp = Some (PreGamePlacingPiece Settlement)"
      "sgame (states wp (the (state (games wp g0)))) = g0"
      "cur_player (games wp g0) = Some ann"
      "players (games wp g0) = [ann, bob]"
      "cur_turn (games wp g0) = 0"
    by (auto simp add: w0_board_g0 empty_board_def)
  from state_kind_of_SomeD [OF wp(2)] obtain s where
    s: "state (games wp g0) = Some s" "kind (states wp s) = PreGamePlacingPiece Settlement"
    by blast
  have sg: "sgame (states wp s) = g0" using wp(3) s by simp
  have cp: "get_cur_player g0 wp = Inr ann"
    by (rule get_cur_player_built [OF wp(4) built_ann])
  have nx: "next_of demo_env g0 ann s wp = bob"
    using sg wp(4,5)
    by (simp add: next_of_def demo_env_sel demo_next_player_def store_sel next_after_ann)
  have n: "Player_init 2 ''Bob'' ''Blue'' = Inr (next_of demo_env g0 ann s wp)"
    using built_bob nx by simp
  have f: "\<not> can_end_game demo_env (at_can_end_game demo_env g0 ann s wp) s"
    by (simp add: demo_env_sel)
  have pre: "is_in_pregame demo_env (at_is_in_pregame demo_env g0 ann s wp) s"
    using s by (simp add: demo_env_sel demo_is_in_pregame_def at_is_in_pregame_sel)
  from end_turn_core_gate [OF s(1) cp n f pre] obtain w' where
    w': "end_turn_core demo_env g0 wp = Inr w'"
      "gate_events wp w' = [NextPlayerCalled (next_of demo_env g0 ann s wp), CanEndGameCalled False]"
      "state_kind_of g0 w' = Some (PreGamePlacingPiece Settlement)"
      "cur_player (games w' g0) = Some (next_of demo_env g0 ann s wp)"
      "cur_turn (games w' g0) = cur_turn (games wp g0) + 1"
    by blast
  show ?thesis
    using wp(1,6) w' nx by simp
qed

end
